theory Spec2Isabelle
  imports Complex_Main "HOL-Library.Sublist" "HOL-Library.Char_ord"
begin

section \<open>Context retrieval server: the retrieval and matching engine\<close>

text \<open>
  A shallow embedding of the query tools of \<^verbatim>\<open>src/mcp-server/server.py\<close>:
  \<^verbatim>\<open>list_subsystems\<close>, \<^verbatim>\<open>get_files_for_subsystem\<close>, \<^verbatim>\<open>find_relevant_context\<close>,
  \<^verbatim>\<open>suggest_agent\<close> and \<^verbatim>\<open>search_context_documents\<close>.

  Conventions of the embedding.
  \<^item> A Python \<^verbatim>\<open>str\<close> is a \<open>string\<close>; texts are read as ASCII, one \<open>char\<close> per
    code point. Case folding and the character classes of \<^verbatim>\<open>re\<close> and \<^verbatim>\<open>str.split\<close>
    are the ASCII ones.
  \<^item> The two module-level dictionaries \<^verbatim>\<open>SUBSYSTEMS\<close> and \<^verbatim>\<open>AGENTS\<close> are association
    lists in insertion order (the order in which Python iterates a dict). The tools
    take them as an argument: the source says of itself that the tool functions work
    with any \<^verbatim>\<open>SUBSYSTEMS\<close>/\<^verbatim>\<open>AGENTS\<close> data.
  \<^item> The float scores of \<^verbatim>\<open>suggest_agent\<close> are exact rationals.
  \<^item> \<^verbatim>\<open>list.sort(key=..., reverse=True)\<close> is the stable sort of the library on the
    negated key: Python's sort is stable, also under \<^verbatim>\<open>reverse=True\<close>.
\<close>

subsection \<open>Strings\<close>

text \<open>\<^verbatim>\<open>str.lower()\<close> on ASCII text.\<close>

definition lower_char :: "char \<Rightarrow> char" where
  "lower_char c =
     (if CHR ''A'' \<le> c \<and> c \<le> CHR ''Z'' then char_of (of_char c + (32::nat)) else c)"

definition lower :: "string \<Rightarrow> string" where
  "lower s = map lower_char s"

text \<open>The regular expression class \<^verbatim>\<open>\w\<close>: letters, digits and the underscore.\<close>

definition is_word_char :: "char \<Rightarrow> bool" where
  "is_word_char c \<longleftrightarrow>
     (CHR ''a'' \<le> c \<and> c \<le> CHR ''z'') \<or> (CHR ''A'' \<le> c \<and> c \<le> CHR ''Z'') \<or>
     (CHR ''0'' \<le> c \<and> c \<le> CHR ''9'') \<or> c = CHR ''_''"

text \<open>The characters \<^verbatim>\<open>str.split()\<close> separates at: tab, newline, vertical tab, form
  feed, carriage return, the four separators \<^verbatim>\<open>\x1c\<close> to \<^verbatim>\<open>\x1f\<close>, and the space.\<close>

definition is_space :: "char \<Rightarrow> bool" where
  "is_space c \<longleftrightarrow>
     (CHR 0x09 \<le> c \<and> c \<le> CHR 0x0D) \<or> (CHR 0x1C \<le> c \<and> c \<le> CHR 0x1F) \<or> c = CHR '' ''"

text \<open>The maximal runs of characters that satisfy \<open>P\<close>, from left to right: skip to the
  next character in \<open>P\<close>, take characters while they are in \<open>P\<close>, go on after them.\<close>

function runs :: "(char \<Rightarrow> bool) \<Rightarrow> string \<Rightarrow> string list" where
  "runs P s =
     (case dropWhile (\<lambda>c. \<not> P c) s of
        [] \<Rightarrow> []
      | c # cs \<Rightarrow> takeWhile P (c # cs) # runs P (dropWhile P cs))"
  by pat_completeness auto
termination
proof (relation "measure (\<lambda>(P, s). length s)", goal_cases)
  case 1
  show ?case by simp
next
  case (2 P s c cs)
  have "length (dropWhile P cs) \<le> length cs"
    by (rule length_dropWhile_le)
  moreover have "length (c # cs) \<le> length s"
    using length_dropWhile_le [of "\<lambda>c. \<not> P c" s] 2 by simp
  ultimately show ?case by simp
qed

declare runs.simps [simp del]

text \<open>\<^verbatim>\<open>re.findall(r'\b\w+\b', s)\<close>: a match starts at a word boundary, takes word
  characters greedily and ends at a word boundary, so the matches are the maximal runs
  of word characters.\<close>

definition findall_words :: "string \<Rightarrow> string list" where
  "findall_words s = runs is_word_char s"

text \<open>\<^verbatim>\<open>s.split()\<close>: the maximal runs of characters that are not whitespace.\<close>

definition split :: "string \<Rightarrow> string list" where
  "split s = runs (\<lambda>c. \<not> is_space c) s"

text \<open>\<^verbatim>\<open>p in s\<close> on strings: \<open>p\<close> starts at some position of \<open>s\<close>.\<close>

fun str_in :: "string \<Rightarrow> string \<Rightarrow> bool" where
  "str_in p [] \<longleftrightarrow> p = []"
| "str_in p (c # cs) \<longleftrightarrow> prefix p (c # cs) \<or> str_in p cs"

text \<open>\<^verbatim>\<open>sep.join(xs)\<close>.\<close>

fun join :: "string \<Rightarrow> string list \<Rightarrow> string" where
  "join sep [] = []"
| "join sep [x] = x"
| "join sep (x # y # ys) = x @ sep @ join sep (y # ys)"

subsection \<open>The Subsystem Index\<close>

record subsystem =
  sub_name :: string
  sub_description :: string
  sub_keywords :: "string list"
  sub_files :: "string list"

type_synonym subsystems = "(string \<times> subsystem) list"

text \<open>The entry \<^verbatim>\<open>"networking"\<close> of \<^verbatim>\<open>SUBSYSTEMS\<close>, as the source has it.\<close>

definition networking :: subsystem where
  "networking = \<lparr>
     sub_name = ''Networking'',
     sub_description = ''Multiplayer networking with host-authoritative P2P model and MessagePack serialization'',
     sub_keywords = [''network'', ''multiplayer'', ''sync'', ''snapshot'', ''interpolation'',
       ''message'', ''transport'', ''lobby'', ''host'', ''client'', ''authority'',
       ''damage report'', ''play mode'', ''offline'', ''online'', ''couch coop'',
       ''local multiplayer'', ''messagepack'', ''serialization'', ''serialize'', ''deserialize''],
     sub_files = [''Network/NetworkService.cs'', ''Network/INetworkService.cs'',
       ''Network/NetworkHelper.cs'', ''Network/Transport/'', ''Network/Messages/'',
       ''Network/Messages/DamageMessages.cs'', ''Network/Messages/PowerUpMessages.cs'',
       ''Network/Sync/'', ''ECS/Systems/NetworkSyncSystem.cs'',
       ''ECS/Systems/NetworkSpawnSystem.cs'', ''ECS/Systems/NetworkInputSystem.cs'',
       ''ECS/Systems/DamageAuthoritySystem.cs'', ''.claude/context/play-modes.md'',
       ''.claude/context/play-mode-testing.md'', ''.claude/context/ui-sync-patterns.md'',
       ''.claude/context/network-operations.md'',
       ''.claude/context/network-determinism-architecture.md'',
       ''.claude/context/network-multiplayer-system.md'']\<rparr>"

text \<open>The entry \<^verbatim>\<open>"devtools"\<close> of \<^verbatim>\<open>SUBSYSTEMS\<close>, as the source has it.\<close>

definition devtools :: subsystem where
  "devtools = \<lparr>
     sub_name = ''Developer Tools'',
     sub_description = ''CLI utilities for testing, debugging, dungeon preview, HUD preview, headless rendering, layout validation, screenshot capture, and entity state dumping'',
     sub_keywords = [''devtools'', ''debug'', ''preview'', ''dungeon'', ''seed'', ''network'',
       ''test'', ''export'', ''verbose'', ''png'', ''image'', ''ascii'', ''csv'',
       ''visualization'', ''hud'', ''headless'', ''render'', ''screenshot'', ''dump'',
       ''validate'', ''font''],
     sub_files = [''../GameProject.DevTools/Program.cs'',
       ''../GameProject.DevTools/DungeonPreview/DungeonPreviewRunner.cs'',
       ''../GameProject.DevTools/DungeonPreview/DungeonPreviewConfig.cs'',
       ''../GameProject.DevTools/DungeonPreview/DungeonImageExporter.cs'',
       ''../GameProject.DevTools/NetworkTesting/MultiClientLauncher.cs'',
       ''../GameProject.DevTools/HudPreview/HudPreviewRunner.cs'',
       ''../GameProject.DevTools/HudPreview/HudPreviewConfig.cs'',
       ''../GameProject.DevTools/HudPreview/SkiaHudRenderer.cs'',
       ''../GameProject.DevTools/HudPreview/HudPresets.cs'',
       ''../GameProject.DevTools/HudPreview/LayoutValidator.cs'',
       ''../GameProject.DevTools/Render/HeadlessRenderer.cs'',
       ''../GameProject.DevTools/Render/RenderConfig.cs'',
       ''UI/Debug/DebugCommandRegistry.cs'', ''Services/Implementation/ContentService.cs'',
       ''.claude/context/test-arena.md'', ''.claude/context/changelog-devlog.md'']\<rparr>"

definition base_path :: string where
  "base_path = ''GameProject/src/GameProject.Engine''"

text \<open>The f-string \<^verbatim>\<open>f"{base_path}/{f}"\<close>.\<close>

definition full_path :: "string \<Rightarrow> string" where
  "full_path f = base_path @ ''/'' @ f"

subsection \<open>\<^verbatim>\<open>list_subsystems\<close> and \<^verbatim>\<open>get_files_for_subsystem\<close>\<close>

record subsystem_summary =
  sum_name :: string
  sum_description :: string
  sum_keywords :: "string list"

definition list_subsystems :: "subsystems \<Rightarrow> (string \<times> subsystem_summary) list" where
  "list_subsystems SUBSYSTEMS =
     map (\<lambda>(key, info). (key, \<lparr>sum_name = sub_name info, sum_description = sub_description info,
                                 sum_keywords = sub_keywords info\<rparr>)) SUBSYSTEMS"

text \<open>The two shapes of the dictionary that \<^verbatim>\<open>get_files_for_subsystem\<close> returns.\<close>

datatype files_result =
    Unknown_subsystem (error: string) (available: "string list")
  | Subsystem_files (fr_subsystem: string) (fr_name: string) (fr_description: string)
      (fr_files: "string list")

definition get_files_for_subsystem :: "subsystems \<Rightarrow> string \<Rightarrow> files_result" where
  "get_files_for_subsystem SUBSYSTEMS key =
     (case map_of SUBSYSTEMS key of
        None \<Rightarrow> Unknown_subsystem (''Unknown subsystem: '' @ key) (map fst SUBSYSTEMS)
      | Some info \<Rightarrow>
          Subsystem_files key (sub_name info) (sub_description info) (map full_path (sub_files info)))"

subsection \<open>\<^verbatim>\<open>find_relevant_context\<close>\<close>

record subsystem_match =
  sm_subsystem :: string
  sm_name :: string
  sm_score :: int
  sm_matched_keywords :: "string list"
  sm_files :: "string list"

text \<open>The loop over \<^verbatim>\<open>info["keywords"]\<close>; the state is \<^verbatim>\<open>score\<close> and
  \<^verbatim>\<open>matched_keywords\<close>.\<close>

fun scan_keywords :: "string \<Rightarrow> string list \<Rightarrow> int \<times> string list \<Rightarrow> int \<times> string list" where
  "scan_keywords task_lower [] (score, matched_keywords) = (score, matched_keywords)"
| "scan_keywords task_lower (keyword # rest) (score, matched_keywords) =
     (if str_in keyword task_lower
      then scan_keywords task_lower rest (score + 1, matched_keywords @ [keyword])
      else scan_keywords task_lower rest (score, matched_keywords))"

text \<open>One round of the loop over \<^verbatim>\<open>SUBSYSTEMS.items()\<close>, up to the test
  \<^verbatim>\<open>score > 0\<close>: the entry that would be appended.\<close>

definition score_subsystem :: "string \<Rightarrow> string \<Rightarrow> subsystem \<Rightarrow> subsystem_match" where
  "score_subsystem task_lower key info =
     (let (score, matched_keywords) = scan_keywords task_lower (sub_keywords info) (0, []);
          score = (if str_in (lower (sub_name info)) task_lower then score + 2 else score)
      in \<lparr>sm_subsystem = key, sm_name = sub_name info, sm_score = score,
          sm_matched_keywords = matched_keywords, sm_files = sub_files info\<rparr>)"

fun score_subsystems :: "string \<Rightarrow> subsystems \<Rightarrow> subsystem_match list \<Rightarrow> subsystem_match list" where
  "score_subsystems task_lower [] matches = matches"
| "score_subsystems task_lower ((key, info) # rest) matches =
     (let m = score_subsystem task_lower key info
      in if sm_score m > 0 then score_subsystems task_lower rest (matches @ [m])
         else score_subsystems task_lower rest matches)"

text \<open>The loop over \<^verbatim>\<open>match["files"]\<close>, and the loop over \<^verbatim>\<open>matches[:3]\<close> around it;
  the state is \<^verbatim>\<open>suggested_files\<close>.\<close>

fun add_files :: "string list \<Rightarrow> string list \<Rightarrow> string list" where
  "add_files [] suggested_files = suggested_files"
| "add_files (f # fs) suggested_files =
     (if full_path f \<notin> set suggested_files
      then add_files fs (suggested_files @ [full_path f])
      else add_files fs suggested_files)"

fun add_matches :: "subsystem_match list \<Rightarrow> string list \<Rightarrow> string list" where
  "add_matches [] suggested_files = suggested_files"
| "add_matches (m # ms) suggested_files = add_matches ms (add_files (sm_files m) suggested_files)"

text \<open>\<^verbatim>\<open>matches.sort(key=lambda x: x["score"], reverse=True)\<close>.\<close>

definition sort_matches :: "subsystem_match list \<Rightarrow> subsystem_match list" where
  "sort_matches matches = sort_key (\<lambda>x. - sm_score x) matches"

record context_result =
  cr_task :: string
  relevant_subsystems :: "subsystem_match list"
  suggested_files :: "string list"
  architecture_resource :: string

definition find_relevant_context :: "subsystems \<Rightarrow> string \<Rightarrow> context_result" where
  "find_relevant_context SUBSYSTEMS task_description =
     (let task_lower = lower task_description;
          matches = score_subsystems task_lower SUBSYSTEMS [];
          matches = sort_matches matches;
          suggested_files = add_matches (take 3 matches) []
      in \<lparr>cr_task = task_description,
          relevant_subsystems = take 5 matches,
          suggested_files = take 10 suggested_files,
          architecture_resource = ''context7://architecture''\<rparr>)"

subsection \<open>The Agent Registry\<close>

record agent =
  agent_name :: string
  agent_description :: string
  agent_triggers :: "string list"
  agent_model :: string

text \<open>The entries of \<^verbatim>\<open>AGENTS\<close>, as the source has them.\<close>

definition code_simplifier :: agent where
  "code_simplifier = \<lparr>
     agent_name = ''Code Simplifier'',
     agent_description = ''Code simplification expert for C#/MonoGame/ECS. Use when code feels complex, hard to read, or fragile. Also handles game state file refactoring (large state files >500 lines, state machine flow, UI extraction). Simplifies without breaking functionality.'',
     agent_triggers = [
       ''simplify'', ''simplification'', ''complex'', ''complicated'', ''refactor'',
       ''cleanup'', ''clean up'', ''readable'', ''readability'', ''maintainable'',
       ''nested'', ''long method'', ''hard to read'', ''confusing'', ''messy'',
       ''playmenustate'', ''hubstate'', ''large file'', ''overlay''],
     agent_model = ''opus''\<rparr>"

definition coordinate_wizard :: agent where
  "coordinate_wizard = \<lparr>
     agent_name = ''Coordinate Wizard'',
     agent_description = ''Isometric coordinate and camera transform specialist. Use for world-to-screen conversion, isometric projections, mouse picking, entity positioning, tile rendering, camera following, UI anchoring, or ViewMode-specific behavior.'',
     agent_triggers = [
       ''coordinate'', ''screen'', ''camera'', ''isometric'', ''transform'', ''viewmode'',
       ''lightmap'', ''half-res'', ''projection'', ''mouse'', ''picking'', ''origin'',
       ''matrix''],
     agent_model = ''opus''\<rparr>"

definition ecs_component_designer :: agent where
  "ecs_component_designer = \<lparr>
     agent_name = ''ECS Component Designer'',
     agent_description = ''Arch ECS specialist for designing new components, systems, and entity archetypes following existing project patterns.'',
     agent_triggers = [
       ''component'', ''system'', ''entity'', ''archetype'', ''query'', ''ecs'', ''factory''],
     agent_model = ''sonnet''\<rparr>"

definition sprite_2d_artist :: agent where
  "sprite_2d_artist = \<lparr>
     agent_name = ''2D Sprite Artist'',
     agent_description = ''2D sprite and animation specialist for spritesheet creation, atlas packing, animation setup, sprite integration into MonoGame content, LDtk level decoration, and placeholder asset generation.'',
     agent_triggers = [
       ''sprite'', ''atlas'', ''animation'', ''spritesheet'', ''frame'', ''ldtk'',
       ''tileset'', ''texture'', ''pack'', ''placeholder''],
     agent_model = ''sonnet''\<rparr>"

definition model_3d_artist :: agent where
  "model_3d_artist = \<lparr>
     agent_name = ''3D Model Artist'',
     agent_description = ''3D model and Meshy pipeline specialist for image-to-3D generation, retexturing, rigging, animation, and Blender sprite rendering.'',
     agent_triggers = [
       ''meshy'', ''blender'', ''3d'', ''model'', ''rigging'', ''retexture'', ''headless'',
       ''glb'', ''fbx'', ''mixamo''],
     agent_model = ''sonnet''\<rparr>"

definition debugger :: agent where
  "debugger = \<lparr>
     agent_name = ''Performance/Network Debugger'',
     agent_description = ''Performance and network debugging specialist for system profiling, performance bottlenecks, multiplayer sync issues, latency investigation, clock synchronization, damage authority debugging, and lobby/connection debugging.'',
     agent_triggers = [
       ''performance'', ''slow'', ''bottleneck'', ''latency'', ''sync'', ''network'',
       ''profiler'', ''fps'', ''debug'', ''lag'', ''damage authority'', ''desync''],
     agent_model = ''opus''\<rparr>"

definition dungeon_tester :: agent where
  "dungeon_tester = \<lparr>
     agent_name = ''Dungeon Tester'',
     agent_description = ''Dungeon generation testing specialist for seed testing, room connectivity analysis, BSP debugging, procedural content validation, and spawner/treasure distribution checks.'',
     agent_triggers = [
       ''dungeon'', ''seed'', ''bsp'', ''room'', ''corridor'', ''procedural'',
       ''generation'', ''spawn''],
     agent_model = ''sonnet''\<rparr>"

definition code_reviewer_game_dev :: agent where
  "code_reviewer_game_dev = \<lparr>
     agent_name = ''Game Dev Code Reviewer'',
     agent_description = ''Expert game engine code reviewer for C# ECS systems, physics logic, or networking code. Reviews for performance, correctness, and MonoGame best practices.'',
     agent_triggers = [
       ''review'', ''refactor'', ''allocations'', ''hot path'', ''performance'', ''patterns''],
     agent_model = ''opus''\<rparr>"

definition network_protocol_designer :: agent where
  "network_protocol_designer = \<lparr>
     agent_name = ''Network Protocol Designer'',
     agent_description = ''Network message and protocol specialist for adding new message types, sync patterns, determinism, damage authority, multiplayer state synchronization, and MessagePack serialization.'',
     agent_triggers = [
       ''message'', ''protocol'', ''sync'', ''determinism'', ''spawn seed'', ''snapshot'',
       ''interpolation'', ''reconciliation'', ''damage report'', ''health sync'',
       ''death batch'', ''authority'', ''messagepack'', ''serialization'', ''serialize'',
       ''deserialize''],
     agent_model = ''opus''\<rparr>"

definition ability_designer :: agent where
  "ability_designer = \<lparr>
     agent_name = ''Ability Designer'',
     agent_description = ''End-to-end ability implementation specialist covering ECS components, systems, VFX placeholders, cooldowns, and balance considerations.'',
     agent_triggers = [
       ''ability'', ''skill'', ''cooldown'', ''projectile'', ''aoe'', ''buff'', ''debuff'',
       ''cast'', ''power-up''],
     agent_model = ''opus''\<rparr>"

definition shader_wizard :: agent where
  "shader_wizard = \<lparr>
     agent_name = ''Shader Wizard'',
     agent_description = ''HLSL shader specialist for MonoGame effects, mgfxc compilation, multi-texture patterns, and graphics debugging.'',
     agent_triggers = [
       ''shader'', ''hlsl'', ''mgfxc'', ''bloom'', ''lighting'', ''multi-texture'',
       ''sampler''],
     agent_model = ''sonnet''\<rparr>"

definition ldtk_validator :: agent where
  "ldtk_validator = \<lparr>
     agent_name = ''LDtk Validator'',
     agent_description = ''LDtk level design validator for hub/map validation, portal connections, layer consistency, and entity placement verification.'',
     agent_triggers = [
       ''ldtk'', ''hub'', ''portal'', ''tilemap'', ''layer'', ''map''],
     agent_model = ''sonnet''\<rparr>"

definition audio_designer :: agent where
  "audio_designer = \<lparr>
     agent_name = ''Audio Designer'',
     agent_description = ''Audio implementation specialist for MonoGame. Use for sound effect creation, WAV generation, audio API integration (Freesound, ElevenLabs), ECS audio timing, performance optimization, and SoundNames organization.'',
     agent_triggers = [
       ''audio'', ''sound'', ''wav'', ''sfx'', ''music'', ''freesound'', ''elevenlabs'',
       ''soundeffect'', ''playsound'', ''volume'', ''bleep'', ''bloop'', ''click'', ''hover''],
     agent_model = ''sonnet''\<rparr>"

definition ui_and_ux_agent :: agent where
  "ui_and_ux_agent = \<lparr>
     agent_name = ''UI/UX Designer'',
     agent_description = ''UI/UX design expert for MonoGame. Use when building menus, buttons, lists, dialogs, overlays, or debugging layout, scaling, and user interaction patterns.'',
     agent_triggers = [
       ''ui'', ''ux'', ''menu'', ''button'', ''dialog'', ''overlay'', ''layout'',
       ''scaling'', ''interaction'', ''widget'', ''panel'', ''screen'', ''interface''],
     agent_model = ''sonnet''\<rparr>"

definition level_designer :: agent where
  "level_designer = \<lparr>
     agent_name = ''Level Designer'',
     agent_description = ''Level design specialist for dungeon config, spawning, tiles, and level balancing.'',
     agent_triggers = [
       ''level'', ''dungeon config'', ''spawning'', ''waves'', ''tiles'', ''difficulty'',
       ''balance'', ''enemy placement'', ''progression''],
     agent_model = ''sonnet''\<rparr>"

definition game_design_brainstorm :: agent where
  "game_design_brainstorm = \<lparr>
     agent_name = ''Game Design Brainstorm'',
     agent_description = ''Senior game designer and player experience critic. Use for brainstorming systems/mechanics, feature scoping, evaluating game feel, reviewing player experience, and critiquing designs from a player perspective.'',
     agent_triggers = [
       ''design'', ''brainstorm'', ''feature'', ''mechanic'', ''system design'', ''scope'',
       ''tradeoff'', ''complexity'', ''game design'', ''fun'', ''feel'', ''game feel'',
       ''feedback'', ''juice'', ''juicy'', ''satisfying'', ''boring'', ''pacing'', ''loop'',
       ''engagement'', ''player experience'', ''critique'', ''evaluate''],
     agent_model = ''opus''\<rparr>"

definition systems_designer :: agent where
  "systems_designer = \<lparr>
     agent_name = ''Systems Designer'',
     agent_description = ''MonoGame systems architecture expert. Use when designing core game systems, establishing patterns, or evaluating architectural decisions. Expert in multiplayer ARPG, FPS, and competitive game frameworks.'',
     agent_triggers = [
       ''systems'', ''architecture'', ''pattern'', ''pooling'', ''spatial'', ''physics'',
       ''ai navigation'', ''a*'', ''pathfinding'', ''collision'', ''swept'', ''netcode'',
       ''tick rate'', ''fixed timestep'', ''hot path'', ''determinism'', ''seeding'',
       ''rng'', ''procedural'', ''wave'', ''spawning'', ''director'', ''loot'',
       ''drop table'', ''camera system'', ''input buffer'', ''animation state'',
       ''buff system'', ''debuff'', ''targeting'', ''lock-on'', ''save system'',
       ''persistence'', ''accessibility'', ''analytics'', ''replay'', ''anti-cheat'',
       ''loading'', ''streaming'', ''data-driven'', ''configuration'', ''definition'',
       ''json data'', ''hot reload'', ''state machine'', ''game state'', ''screen stack'',
       ''lifecycle'', ''event bus'', ''pub/sub'', ''messaging'', ''debug console'',
       ''cheat'', ''cvar''],
     agent_model = ''opus''\<rparr>"

text \<open>The dictionary \<^verbatim>\<open>AGENTS\<close>, in the order of its literal.\<close>

definition AGENTS :: "(string \<times> agent) list" where
  "AGENTS = [
     (''code-simplifier'', code_simplifier), (''coordinate-wizard'', coordinate_wizard),
     (''ecs-component-designer'', ecs_component_designer),
     (''sprite-2d-artist'', sprite_2d_artist), (''model-3d-artist'', model_3d_artist),
     (''debugger'', debugger), (''dungeon-tester'', dungeon_tester),
     (''code-reviewer-game-dev'', code_reviewer_game_dev),
     (''network-protocol-designer'', network_protocol_designer),
     (''ability-designer'', ability_designer), (''shader-wizard'', shader_wizard),
     (''ldtk-validator'', ldtk_validator), (''audio-designer'', audio_designer),
     (''ui-and-ux-agent'', ui_and_ux_agent), (''level-designer'', level_designer),
     (''game-design-brainstorm'', game_design_brainstorm),
     (''systems-designer'', systems_designer)]"

subsection \<open>\<^verbatim>\<open>suggest_agent\<close>\<close>

text \<open>The two loops that fill \<^verbatim>\<open>trigger_agent_count\<close>:
  \<^verbatim>\<open>trigger_agent_count[t] = trigger_agent_count.get(t, 0) + 1\<close> for every trigger of
  every agent.\<close>

fun count_triggers :: "string list \<Rightarrow> (string \<rightharpoonup> nat) \<Rightarrow> (string \<rightharpoonup> nat)" where
  "count_triggers [] trigger_agent_count = trigger_agent_count"
| "count_triggers (t # ts) trigger_agent_count =
     count_triggers ts
       (trigger_agent_count(t \<mapsto> (case trigger_agent_count t of None \<Rightarrow> 0 | Some n \<Rightarrow> n) + 1))"

fun count_agents :: "(string \<times> agent) list \<Rightarrow> (string \<rightharpoonup> nat) \<Rightarrow> (string \<rightharpoonup> nat)" where
  "count_agents [] trigger_agent_count = trigger_agent_count"
| "count_agents ((agent_id, info) # rest) trigger_agent_count =
     count_agents rest (count_triggers (agent_triggers info) trigger_agent_count)"

record agent_match =
  am_agent :: string
  am_name :: string
  am_description :: string
  am_model :: string
  am_score :: rat
  am_matched_triggers :: "string list"

text \<open>The loop over \<^verbatim>\<open>info["triggers"]\<close>; the state is \<^verbatim>\<open>score\<close> and
  \<^verbatim>\<open>matched_triggers\<close>. \<^verbatim>\<open>task_words\<close> is the list of the tokens, read as a set.\<close>

fun scan_triggers ::
  "(string \<rightharpoonup> nat) \<Rightarrow> string list \<Rightarrow> string \<Rightarrow> string list \<Rightarrow> rat \<times> string list \<Rightarrow>
   rat \<times> string list" where
  "scan_triggers trigger_agent_count task_words task_lower [] (score, matched_triggers) =
     (score, matched_triggers)"
| "scan_triggers trigger_agent_count task_words task_lower (trigger # rest)
     (score, matched_triggers) =
     (let trigger_words = split trigger;
          matched = (if length trigger_words = 1 then trigger \<in> set task_words
                     else str_in trigger task_lower)
      in if matched
         then let base = of_nat (length trigger_words);
                  uniqueness = 1 / of_nat (case trigger_agent_count trigger of
                                             None \<Rightarrow> 1 | Some n \<Rightarrow> n)
              in scan_triggers trigger_agent_count task_words task_lower rest
                   (score + base * (1 + uniqueness), matched_triggers @ [trigger])
         else scan_triggers trigger_agent_count task_words task_lower rest
                (score, matched_triggers))"

text \<open>One round of the loop over \<^verbatim>\<open>AGENTS.items()\<close>, up to the test \<^verbatim>\<open>score > 0\<close>:
  the entry that would be appended.\<close>

definition score_agent ::
  "(string \<rightharpoonup> nat) \<Rightarrow> string list \<Rightarrow> string \<Rightarrow> string \<Rightarrow> agent \<Rightarrow> agent_match" where
  "score_agent trigger_agent_count task_words task_lower agent_id info =
     (let (score, matched_triggers) =
            scan_triggers trigger_agent_count task_words task_lower (agent_triggers info) (0, []);
          score = (if list_ex (\<lambda>word. 3 < length word \<and>
                                 str_in word (lower (agent_description info))) task_words
                   then score + 1 / 2 else score)
      in \<lparr>am_agent = agent_id, am_name = agent_name info,
          am_description = agent_description info, am_model = agent_model info,
          am_score = score, am_matched_triggers = matched_triggers\<rparr>)"

fun score_agents ::
  "(string \<rightharpoonup> nat) \<Rightarrow> string list \<Rightarrow> string \<Rightarrow> (string \<times> agent) list \<Rightarrow>
   agent_match list \<Rightarrow> agent_match list" where
  "score_agents trigger_agent_count task_words task_lower [] matches = matches"
| "score_agents trigger_agent_count task_words task_lower ((agent_id, info) # rest) matches =
     (let m = score_agent trigger_agent_count task_words task_lower agent_id info
      in if am_score m > 0
         then score_agents trigger_agent_count task_words task_lower rest (matches @ [m])
         else score_agents trigger_agent_count task_words task_lower rest matches)"

text \<open>The list \<^verbatim>\<open>matches\<close> after
  \<^verbatim>\<open>matches.sort(key=lambda x: x["score"], reverse=True)\<close>.\<close>

definition ranked_agents :: "(string \<times> agent) list \<Rightarrow> string \<Rightarrow> agent_match list" where
  "ranked_agents agents task_description =
     (let task_lower = lower task_description;
          task_words = findall_words task_lower;
          trigger_agent_count = count_agents agents Map.empty;
          matches = score_agents trigger_agent_count task_words task_lower agents []
      in sort_key (\<lambda>x. - am_score x) matches)"

record suggestion =
  sg_task :: string
  recommendation :: "string option"
  confidence :: string
  suggested_agents :: "agent_match list"
  should_invoke :: bool
  disambiguation :: "string option"

definition suggest_agent :: "(string \<times> agent) list \<Rightarrow> string \<Rightarrow> suggestion" where
  "suggest_agent agents task_description =
     (let matches = ranked_agents agents task_description;
          top_score = (case matches of [] \<Rightarrow> 0 | m # _ \<Rightarrow> am_score m);
          confidence = (if top_score \<ge> 4 then ''high'' else if top_score \<ge> 2 then ''medium''
                        else if top_score \<ge> 1 then ''low'' else ''none'')
      in \<lparr>sg_task = task_description,
          recommendation = (case matches of [] \<Rightarrow> None | m # _ \<Rightarrow> Some (am_agent m)),
          confidence = confidence,
          suggested_agents = take 3 matches,
          should_invoke = (confidence \<in> set [''high'', ''medium'']),
          disambiguation =
            (case matches of
               m0 # m1 # _ \<Rightarrow>
                 if am_score m0 = am_score m1
                 then Some (''Tied between '' @
                            join '', '' (map am_agent (filter (\<lambda>m. am_score m = am_score m0) matches)) @
                            ''. Check which files you're modifying to decide.'')
                 else None
             | _ \<Rightarrow> None)\<rparr>)"

subsection \<open>\<^verbatim>\<open>search_context_documents\<close>\<close>

text \<open>What the tool sees of the file system: whether \<^verbatim>\<open>CONTEXT_DIR\<close> exists and, for
  every file that \<^verbatim>\<open>CONTEXT_DIR.glob("*.md")\<close> yields, in that order, its stem, its path
  relative to the project root, and what \<^verbatim>\<open>read_text(encoding="utf-8")\<close> does: \<open>Some\<close>
  of the content, or \<open>None\<close> if it raises (the file cannot be decoded, cannot be
  opened, or is gone).\<close>

record doc_file =
  stem :: string
  relative_path :: string
  read_text :: "string option"

text \<open>\<^verbatim>\<open>content.split("\n")\<close>: the pieces between the newlines, at least one.\<close>

fun split_lines :: "string \<Rightarrow> string list" where
  "split_lines [] = [[]]"
| "split_lines (c # cs) =
     (if c = CHR 0x0A then [] # split_lines cs
      else (case split_lines cs of line # rest \<Rightarrow> (c # line) # rest | [] \<Rightarrow> [[c]]))"

record line_match =
  line_number :: nat
  match_context :: string

text \<open>The loop over \<^verbatim>\<open>enumerate(lines)\<close>, from index \<open>i\<close> on; \<open>todo\<close> is the lines from
  \<open>i\<close> on, and the state is \<^verbatim>\<open>matches\<close>. The slice \<^verbatim>\<open>lines[start:end]\<close> is taken with
  \<open>take\<close> and \<open>drop\<close>; on natural numbers \<open>i - 2\<close> is \<^verbatim>\<open>max(0, i - 2)\<close>.\<close>

fun scan_lines ::
  "string \<Rightarrow> string list \<Rightarrow> nat \<Rightarrow> string list \<Rightarrow> line_match list \<Rightarrow> line_match list" where
  "scan_lines query_lower lines i [] matches = matches"
| "scan_lines query_lower lines i (line # todo) matches =
     (if str_in query_lower (lower line)
      then let start = i - 2;
               end = min (length lines) (i + 3);
               context_lines = take (end - start) (drop start lines)
           in scan_lines query_lower lines (i + 1) todo
                (matches @ [\<lparr>line_number = i + 1, match_context = join [CHR 0x0A] context_lines\<rparr>])
      else scan_lines query_lower lines (i + 1) todo matches)"

record document_match =
  document :: string
  path :: string
  dm_matches :: "line_match list"
  total_matches :: nat

text \<open>The body of the \<^verbatim>\<open>try\<close> block for one file whose text was read: the entry that is
  appended to \<^verbatim>\<open>results\<close>, if there is a matching line.\<close>

definition search_document :: "string \<Rightarrow> doc_file \<Rightarrow> string \<Rightarrow> document_match option" where
  "search_document query_lower doc content =
     (let lines = split_lines content;
          matches = scan_lines query_lower lines 0 lines []
      in if matches \<noteq> []
         then Some \<lparr>document = stem doc, path = relative_path doc,
                     dm_matches = take 10 matches, total_matches = length matches\<rparr>
         else None)"

text \<open>The loop over the files. A file whose \<^verbatim>\<open>read_text\<close> raises takes the
  \<^verbatim>\<open>except Exception\<close> branch, which is \<^verbatim>\<open>continue\<close>.\<close>

fun search_documents :: "string \<Rightarrow> doc_file list \<Rightarrow> document_match list \<Rightarrow> document_match list" where
  "search_documents query_lower [] results = results"
| "search_documents query_lower (doc # docs) results =
     (case read_text doc of
        None \<Rightarrow> search_documents query_lower docs results
      | Some content \<Rightarrow>
          (case search_document query_lower doc content of
             Some entry \<Rightarrow> search_documents query_lower docs (results @ [entry])
           | None \<Rightarrow> search_documents query_lower docs results))"

text \<open>The two shapes of an entry of \<^verbatim>\<open>subsystem_matches\<close>.\<close>

datatype subsystem_hit =
    Text_hit (hit_subsystem: string) (hit_name: string) (hit_description: string)
  | Keyword_hit (hit_subsystem: string) (hit_name: string) (matched_keyword: string)

text \<open>The loop over the keywords of one subsystem, which stops at the first hit.\<close>

fun first_keyword :: "string \<Rightarrow> string list \<Rightarrow> string option" where
  "first_keyword query_lower [] = None"
| "first_keyword query_lower (keyword # rest) =
     (if str_in query_lower (lower keyword) then Some keyword
      else first_keyword query_lower rest)"

fun search_subsystems :: "string \<Rightarrow> subsystems \<Rightarrow> subsystem_hit list \<Rightarrow> subsystem_hit list" where
  "search_subsystems query_lower [] subsystem_matches = subsystem_matches"
| "search_subsystems query_lower ((key, info) # rest) subsystem_matches =
     (if str_in query_lower (lower (sub_name info)) \<or>
         str_in query_lower (lower (sub_description info))
      then search_subsystems query_lower rest
             (subsystem_matches @ [Text_hit key (sub_name info) (sub_description info)])
      else (case first_keyword query_lower (sub_keywords info) of
              Some keyword \<Rightarrow>
                search_subsystems query_lower rest
                  (subsystem_matches @ [Keyword_hit key (sub_name info) keyword])
            | None \<Rightarrow> search_subsystems query_lower rest subsystem_matches))"

record search_result =
  sr_query :: string
  document_matches :: "document_match list"
  subsystem_matches :: "subsystem_hit list"

text \<open>The tool returns \<open>Inl\<close> of the error payload or \<open>Inr\<close> of the result.\<close>

definition search_context_documents ::
  "subsystems \<Rightarrow> bool \<Rightarrow> doc_file list \<Rightarrow> string \<Rightarrow> string + search_result" where
  "search_context_documents SUBSYSTEMS context_dir_exists doc_files query =
     (if \<not> context_dir_exists then Inl ''Context directory not found''
      else let query_lower = lower query;
               results = search_documents query_lower doc_files [];
               subsystem_matches = search_subsystems query_lower SUBSYSTEMS []
           in Inr \<lparr>sr_query = query, document_matches = results,
                    subsystem_matches = subsystem_matches\<rparr>)"

subsection \<open>The scoring rule of the Agent Suggester, in the words of the specification\<close>

text \<open>The number of words of a trigger phrase.\<close>

definition spec_word_count :: "string \<Rightarrow> nat" where
  "spec_word_count trigger = length (split trigger)"

text \<open>The number of distinct agents that list the trigger phrase.\<close>

definition spec_agent_count :: "(string \<times> agent) list \<Rightarrow> string \<Rightarrow> nat" where
  "spec_agent_count agents trigger =
     card (fst ` {e \<in> set agents. trigger \<in> set (agent_triggers (snd e))})"

text \<open>A single-word trigger matches if it is one of the tokens of the lower-cased text, a
  multi-word trigger if it is a contiguous part of the lower-cased text.\<close>

definition spec_trigger_matches :: "string \<Rightarrow> string \<Rightarrow> bool" where
  "spec_trigger_matches task trigger \<longleftrightarrow>
     (spec_word_count trigger = 1 \<and> trigger \<in> set (findall_words (lower task))) \<or>
     (spec_word_count trigger > 1 \<and> sublist trigger (lower task))"

text \<open>The flat bonus for a token of more than 3 characters that occurs in the lower-cased
  description.\<close>

definition spec_description_bonus :: "string \<Rightarrow> agent \<Rightarrow> rat" where
  "spec_description_bonus task info =
     (if \<exists>word \<in> set (findall_words (lower task)).
           3 < length word \<and> sublist word (lower (agent_description info))
      then 1 / 2 else 0)"

definition spec_agent_score :: "(string \<times> agent) list \<Rightarrow> string \<Rightarrow> agent \<Rightarrow> rat" where
  "spec_agent_score agents task info =
     (\<Sum>trigger \<leftarrow> filter (spec_trigger_matches task) (agent_triggers info).
        of_nat (spec_word_count trigger) * (1 + 1 / of_nat (spec_agent_count agents trigger))) +
     spec_description_bonus task info"

text \<open>The entry of every agent of the registry, in registry order, whatever its score;
  the top score, which is the greatest of their scores, or 0 in an empty registry; and
  the agents whose score is the top score, in registry order.\<close>

definition scored_agents :: "(string \<times> agent) list \<Rightarrow> string \<Rightarrow> agent_match list" where
  "scored_agents agents task =
     map (\<lambda>(agent_id, info).
            score_agent (count_agents agents Map.empty) (findall_words (lower task))
              (lower task) agent_id info) agents"

definition spec_top_score :: "(string \<times> agent) list \<Rightarrow> string \<Rightarrow> rat" where
  "spec_top_score agents task = Max (insert 0 (am_score ` set (scored_agents agents task)))"

definition spec_tied :: "(string \<times> agent) list \<Rightarrow> string \<Rightarrow> string list" where
  "spec_tied agents task =
     map am_agent (filter (\<lambda>m. am_score m = spec_top_score agents task)
                     (scored_agents agents task))"

section \<open>Properties\<close>

subsection \<open>Strings\<close>

lemma str_in_sublist: "str_in p s \<longleftrightarrow> sublist p s"
  by (induction s) (simp_all add: sublist_Cons_right)

subsection \<open>Lookup by key\<close>

text \<open>
  Claim C7. For a key of the Subsystem Index, \<^verbatim>\<open>get_files_for_subsystem\<close> returns the
  key, the name and the description of its subsystem and the file patterns, each
  prefixed with the base path, and not the not-found error; so it is not an error for
  any key that \<^verbatim>\<open>list_subsystems\<close> returns. For an unknown key it returns the error
  payload, whose \<open>available\<close> list is the list of all keys of the index, in load order.
\<close>

theorem get_files_for_subsystem_known_or_available:
  "(\<forall>info. map_of SUBSYSTEMS key = Some info \<longrightarrow>
      get_files_for_subsystem SUBSYSTEMS key =
        Subsystem_files key (sub_name info) (sub_description info)
          (map (\<lambda>f. ''GameProject/src/GameProject.Engine/'' @ f) (sub_files info))) \<and>
   (\<forall>k \<in> fst ` set (list_subsystems SUBSYSTEMS).
      \<not> is_Unknown_subsystem (get_files_for_subsystem SUBSYSTEMS k)) \<and>
   (key \<notin> fst ` set SUBSYSTEMS \<longrightarrow>
      get_files_for_subsystem SUBSYSTEMS key =
        Unknown_subsystem (''Unknown subsystem: '' @ key) (map fst SUBSYSTEMS))"
proof (intro conjI allI impI ballI)
  fix info
  assume "map_of SUBSYSTEMS key = Some info"
  then show "get_files_for_subsystem SUBSYSTEMS key =
      Subsystem_files key (sub_name info) (sub_description info)
        (map (\<lambda>f. ''GameProject/src/GameProject.Engine/'' @ f) (sub_files info))"
    by (simp add: get_files_for_subsystem_def full_path_def base_path_def)
next
  fix k
  assume "k \<in> fst ` set (list_subsystems SUBSYSTEMS)"
  then have "k \<in> fst ` set SUBSYSTEMS"
    by (force simp: list_subsystems_def)
  then obtain info where "map_of SUBSYSTEMS k = Some info"
    by (metis domD dom_map_of_conv_image_fst)
  then show "\<not> is_Unknown_subsystem (get_files_for_subsystem SUBSYSTEMS k)"
    by (simp add: get_files_for_subsystem_def)
next
  assume "key \<notin> fst ` set SUBSYSTEMS"
  then have "map_of SUBSYSTEMS key = None"
    by (simp add: map_of_eq_None_iff)
  then show "get_files_for_subsystem SUBSYSTEMS key =
      Unknown_subsystem (''Unknown subsystem: '' @ key) (map fst SUBSYSTEMS)"
    by (simp add: get_files_for_subsystem_def)
qed

theorem get_files_for_subsystem_known_or_available_witness:
  "get_files_for_subsystem [(''networking'', networking)] ''networking'' =
     Subsystem_files ''networking'' (sub_name networking) (sub_description networking)
       (map (\<lambda>f. ''GameProject/src/GameProject.Engine/'' @ f) (sub_files networking)) \<and>
   \<not> is_Unknown_subsystem (get_files_for_subsystem [(''networking'', networking)] ''networking'') \<and>
   get_files_for_subsystem [(''networking'', networking)] ''ecs'' =
     Unknown_subsystem ''Unknown subsystem: ecs'' [''networking'']"
proof -
  have "map_of [(''networking'', networking)] ''networking'' = Some networking"
    by simp
  moreover have "''networking'' \<in> fst ` set (list_subsystems [(''networking'', networking)])"
    by (simp add: list_subsystems_def)
  moreover have "''ecs'' \<notin> fst ` set [(''networking'', networking)]"
    by simp
  ultimately show ?thesis
    using get_files_for_subsystem_known_or_available [of "[(''networking'', networking)]" "''networking''"]
      get_files_for_subsystem_known_or_available [of "[(''networking'', networking)]" "''ecs''"]
    by simp
qed

subsection \<open>Relevance scoring\<close>

lemma scan_keywords_filter:
  "scan_keywords t ks (s, mk) =
     (s + int (length (filter (\<lambda>k. str_in k t) ks)), mk @ filter (\<lambda>k. str_in k t) ks)"
  by (induction ks arbitrary: s mk) auto

lemma sm_score_score_subsystem:
  "sm_score (score_subsystem t key info) =
     int (length (filter (\<lambda>k. sublist k t) (sub_keywords info))) +
     (if sublist (lower (sub_name info)) t then 2 else 0)"
  by (simp add: score_subsystem_def scan_keywords_filter str_in_sublist)

lemma sm_matched_keywords_score_subsystem:
  "sm_matched_keywords (score_subsystem t key info) = filter (\<lambda>k. sublist k t) (sub_keywords info)"
  by (simp add: score_subsystem_def scan_keywords_filter str_in_sublist)

lemma sm_subsystem_score_subsystem: "sm_subsystem (score_subsystem t key info) = key"
  by (simp add: score_subsystem_def split: prod.splits)

lemma sm_files_score_subsystem: "sm_files (score_subsystem t key info) = sub_files info"
  by (simp add: score_subsystem_def split: prod.splits)

lemma score_subsystems_filter:
  "score_subsystems t S acc =
     acc @ filter (\<lambda>m. 0 < sm_score m) (map (\<lambda>(k, i). score_subsystem t k i) S)"
  by (induction S arbitrary: acc) (auto simp: Let_def)

lemma set_sort_matches: "set (sort_matches ms) = set ms"
  by (simp add: sort_matches_def)

lemma sorted_sort_matches: "sorted (map (\<lambda>x. - sm_score x) (sort_matches ms))"
  by (simp add: sort_matches_def)

lemma remdups_skip: "x \<in> set zs \<Longrightarrow> remdups (ys @ x # zs) = remdups (ys @ zs)"
  by (induction ys) auto

lemma add_files_first_seen:
  "distinct acc \<Longrightarrow> add_files fs acc = rev (remdups (rev (acc @ map full_path fs)))"
proof (induction fs arbitrary: acc)
  case Nil
  then show ?case by (simp add: distinct_remdups_id)
next
  case (Cons f fs)
  show ?case
  proof (cases "full_path f \<in> set acc")
    case True
    then have "remdups (rev (map full_path fs) @ full_path f # rev acc) =
        remdups (rev (map full_path fs) @ rev acc)"
      by (intro remdups_skip) simp
    with True Cons show ?thesis by (simp add: rev_map)
  next
    case False
    with Cons.prems have "distinct (acc @ [full_path f])" by simp
    from Cons.IH [OF this] False show ?thesis by simp
  qed
qed

lemma distinct_add_files: "distinct acc \<Longrightarrow> distinct (add_files fs acc)"
  by (simp add: add_files_first_seen)

lemma remdups_append_remdups: "remdups (xs @ remdups ys) = remdups (xs @ ys)"
  by (induction xs) auto

lemma add_matches_first_seen:
  "distinct acc \<Longrightarrow>
   add_matches ms acc = rev (remdups (rev (acc @ concat (map (\<lambda>m. map full_path (sm_files m)) ms))))"
proof (induction ms arbitrary: acc)
  case Nil
  then show ?case by (simp add: distinct_remdups_id)
next
  case (Cons m ms)
  have d: "distinct (add_files (sm_files m) acc)"
    using Cons.prems by (rule distinct_add_files)
  have "add_matches (m # ms) acc =
      rev (remdups (rev (add_files (sm_files m) acc @
        concat (map (\<lambda>m. map full_path (sm_files m)) ms))))"
    using Cons.IH [OF d] by simp
  also have "\<dots> = rev (remdups (rev (concat (map (\<lambda>m. map full_path (sm_files m)) ms)) @
      remdups (rev (acc @ map full_path (sm_files m)))))"
    using Cons.prems by (simp add: add_files_first_seen)
  also have "\<dots> = rev (remdups (rev (acc @ concat (map (\<lambda>m. map full_path (sm_files m)) (m # ms)))))"
    by (simp add: remdups_append_remdups)
  finally show ?case .
qed

lemma sorted_desc_before:
  assumes "sorted (map (\<lambda>x. - f x) xs)" and "i < length xs" and "j < length xs"
    and "(f (xs ! j) :: int) < f (xs ! i)"
  shows "i < j"
proof (rule ccontr)
  assume "\<not> i < j"
  then have "j \<le> i" by simp
  with assms(1,2) have "(map (\<lambda>x. - f x) xs) ! j \<le> (map (\<lambda>x. - f x) xs) ! i"
    by (intro sorted_nth_mono) simp_all
  with assms(2,3,4) show False by simp
qed

lemma relevant_subsystems_eq:
  "relevant_subsystems (find_relevant_context S t) =
     take 5 (sort_matches (score_subsystems (lower t) S []))"
  by (simp add: find_relevant_context_def Let_def)

lemma score_subsystem_mono:
  assumes "\<forall>k \<in> set (sub_keywords info). sublist k t1 \<longrightarrow> sublist k t2"
    and "sublist (lower (sub_name info)) t1 \<longrightarrow> sublist (lower (sub_name info)) t2"
  shows "sm_score (score_subsystem t1 key info) \<le> sm_score (score_subsystem t2 key info)"
proof -
  have "filter (\<lambda>k. sublist k t1) (sub_keywords info) =
      filter (\<lambda>k. sublist k t1) (filter (\<lambda>k. sublist k t2) (sub_keywords info))"
    using assms(1) by (auto intro: filter_cong)
  then have "length (filter (\<lambda>k. sublist k t1) (sub_keywords info)) \<le>
      length (filter (\<lambda>k. sublist k t2) (sub_keywords info))"
    by (metis length_filter_le)
  with assms(2) show ?thesis
    by (simp add: sm_score_score_subsystem)
qed

lemma score_subsystem_superset:
  assumes "distinct (sub_keywords B)"
    and "set (sm_matched_keywords (score_subsystem t kb B)) \<subset>
         set (sm_matched_keywords (score_subsystem t ka A))"
    and "sublist (lower (sub_name B)) t \<longrightarrow> sublist (lower (sub_name A)) t"
  shows "sm_score (score_subsystem t kb B) < sm_score (score_subsystem t ka A)"
proof -
  let ?mb = "filter (\<lambda>k. sublist k t) (sub_keywords B)"
  let ?ma = "filter (\<lambda>k. sublist k t) (sub_keywords A)"
  from assms(2) have "card (set ?mb) < card (set ?ma)"
    by (simp add: sm_matched_keywords_score_subsystem psubset_card_mono)
  moreover have "card (set ?mb) = length ?mb"
    using assms(1) by (intro distinct_card distinct_filter)
  moreover have "card (set ?ma) \<le> length ?ma"
    by (rule card_length)
  ultimately have "length ?mb < length ?ma" by simp
  with assms(3) show ?thesis
    by (simp add: sm_score_score_subsystem)
qed

lemma score_subsystem_nonneg: "0 \<le> sm_score (score_subsystem t key info)"
  by (simp add: sm_score_score_subsystem)

lemma ranked_before:
  assumes dk: "distinct (map fst S)" and a: "(ka, A) \<in> set S" and b: "(kb, B) \<in> set S"
    and lt: "sm_score (score_subsystem t kb B) < sm_score (score_subsystem t ka A)"
    and r: "r = take n (sort_matches (score_subsystems t S []))"
    and j: "j < length r" "sm_subsystem (r ! j) = kb"
  shows "\<exists>i<j. sm_subsystem (r ! i) = ka"
proof -
  let ?ranked = "sort_matches (score_subsystems t S [])"
  let ?ma = "score_subsystem t ka A"
  have set_ranked: "set ?ranked =
      {m \<in> (\<lambda>(k, i). score_subsystem t k i) ` set S. 0 < sm_score m}"
    by (auto simp: set_sort_matches score_subsystems_filter)
  from j r have jr: "j < length ?ranked" "j < n" "r ! j = ?ranked ! j"
    by simp_all
  then have "?ranked ! j \<in> set ?ranked" by simp
  with set_ranked obtain k' B' where kB': "(k', B') \<in> set S" "?ranked ! j = score_subsystem t k' B'"
    by auto
  with j(2) jr(3) have "k' = kb" by (simp add: sm_subsystem_score_subsystem)
  with kB'(1) b dk have "B' = B" by (meson eq_key_imp_eq_value)
  with kB'(2) \<open>k' = kb\<close> have sj: "sm_score (?ranked ! j) = sm_score (score_subsystem t kb B)"
    by simp
  have "0 < sm_score ?ma"
    using lt score_subsystem_nonneg [of t kb B] by simp
  with a set_ranked have "?ma \<in> set ?ranked" by force
  then obtain i where i: "i < length ?ranked" "?ranked ! i = ?ma"
    by (auto simp: in_set_conv_nth)
  have "i < j"
    using sorted_sort_matches [of "score_subsystems t S []"] i(1) jr(1)
  proof (rule sorted_desc_before)
    show "sm_score (?ranked ! j) < sm_score (?ranked ! i)"
      using sj i(2) lt by simp
  qed
  moreover from this jr(2) i r have "r ! i = ?ma" by simp
  ultimately show ?thesis
    by (auto simp: sm_subsystem_score_subsystem)
qed

text \<open>
  Claim C5. The score that the loop of \<^verbatim>\<open>find_relevant_context\<close> computes for a subsystem
  is the number of its keywords that occur as a contiguous part of the lower-cased
  text (an entry of the keyword list adds 1, however often it occurs in the text), plus
  2 if the lower-cased display name occurs in the text. Every entry of the returned
  list is the entry computed for a subsystem of the index and has a positive score, so
  that a subsystem with score 0 is not returned. On \<^verbatim>\<open>"fix the sync issue"\<close> the
  subsystem \<^verbatim>\<open>networking\<close> scores 1.
\<close>

theorem find_relevant_context_score:
  "(\<forall>(key, info) \<in> set SUBSYSTEMS.
      sm_score (score_subsystem (lower task) key info) =
        int (length (filter (\<lambda>keyword. sublist keyword (lower task)) (sub_keywords info))) +
        (if sublist (lower (sub_name info)) (lower task) then 2 else 0)) \<and>
   (\<forall>m \<in> set (relevant_subsystems (find_relevant_context SUBSYSTEMS task)).
      0 < sm_score m \<and>
      (\<exists>info. (sm_subsystem m, info) \<in> set SUBSYSTEMS \<and>
         m = score_subsystem (lower task) (sm_subsystem m) info)) \<and>
   sm_score (score_subsystem (lower ''fix the sync issue'') ''networking'' networking) = 1"
proof (intro conjI ballI)
  fix x assume "x \<in> set SUBSYSTEMS"
  show "case x of (key, info) \<Rightarrow>
      sm_score (score_subsystem (lower task) key info) =
        int (length (filter (\<lambda>keyword. sublist keyword (lower task)) (sub_keywords info))) +
        (if sublist (lower (sub_name info)) (lower task) then 2 else 0)"
    by (cases x) (simp add: sm_score_score_subsystem)
next
  fix m assume "m \<in> set (relevant_subsystems (find_relevant_context SUBSYSTEMS task))"
  then have "m \<in> set (score_subsystems (lower task) SUBSYSTEMS [])"
    by (auto simp: find_relevant_context_def Let_def set_sort_matches dest: in_set_takeD)
  then show "0 < sm_score m" 
    by (auto simp: score_subsystems_filter)
  from \<open>m \<in> set (score_subsystems (lower task) SUBSYSTEMS [])\<close>
  show "\<exists>info. (sm_subsystem m, info) \<in> set SUBSYSTEMS \<and>
         m = score_subsystem (lower task) (sm_subsystem m) info"
    by (auto simp: score_subsystems_filter sm_subsystem_score_subsystem)
next
  show "sm_score (score_subsystem (lower ''fix the sync issue'') ''networking'' networking) = 1"
    by code_simp
qed

theorem find_relevant_context_score_witness:
  "map sm_subsystem (relevant_subsystems (find_relevant_context
     [(''networking'', networking), (''devtools'', devtools)] ''fix the sync issue'')) =
     [''networking''] \<and>
   sm_score (score_subsystem (lower ''fix the sync issue'') ''networking'' networking) = 1 \<and>
   sm_score (score_subsystem (lower ''fix the sync issue'') ''devtools'' devtools) = 0"
proof -
  let ?idx = "[(''networking'', networking), (''devtools'', devtools)]"
  have r: "map sm_subsystem (relevant_subsystems (find_relevant_context ?idx ''fix the sync issue'')) =
      [''networking'']"
    unfolding relevant_subsystems_eq by code_simp
  have "(''devtools'', devtools) \<in> set ?idx" and "(''networking'', networking) \<in> set ?idx"
    by simp_all
  moreover have "sublist (lower (sub_name devtools)) (lower ''fix the sync issue'') = False"
    by code_simp
  moreover have "filter (\<lambda>keyword. sublist keyword (lower ''fix the sync issue''))
      (sub_keywords devtools) = []"
    by code_simp
  ultimately show ?thesis
    using find_relevant_context_score [of ?idx "''fix the sync issue''"] r
    by auto
qed

text \<open>
  Claim C6. The suggested files are the first 10 entries of the list obtained from the
  files of the top 3 ranked subsystems, in rank order and each prefixed with the base
  path, by keeping the first occurrence of every path (\<open>remdups\<close> keeps the last
  occurrence, so the list is reversed before and after). The returned subsystem list
  is the first 5 entries of the ranked list. The result record \<open>context_result\<close> has
  no confidence field.
\<close>

theorem find_relevant_context_suggested_files:
  "suggested_files (find_relevant_context SUBSYSTEMS task) =
     take 10 (rev (remdups (rev (concat (map (\<lambda>m. map full_path (sm_files m))
       (take 3 (relevant_subsystems (find_relevant_context SUBSYSTEMS task)))))))) \<and>
   relevant_subsystems (find_relevant_context SUBSYSTEMS task) =
     take 5 (sort_matches (score_subsystems (lower task) SUBSYSTEMS [])) \<and>
   length (relevant_subsystems (find_relevant_context SUBSYSTEMS task)) \<le> 5 \<and>
   length (suggested_files (find_relevant_context SUBSYSTEMS task)) \<le> 10"
  by (simp add: find_relevant_context_def Let_def add_matches_first_seen min_def)

text \<open>
  Claim C8, as stated, fails: the display name adds 2 to a score, whatever the keywords
  do. In the index made of the source's entries \<^verbatim>\<open>networking\<close> and \<^verbatim>\<open>devtools\<close>, the
  text \<^verbatim>\<open>"developer tools sync"\<close> matches the keyword \<^verbatim>\<open>sync\<close> of \<^verbatim>\<open>networking\<close> and no
  keyword of \<^verbatim>\<open>devtools\<close>, whose name it contains: the matched keyword set of
  \<^verbatim>\<open>networking\<close> strictly contains that of \<^verbatim>\<open>devtools\<close>, and \<^verbatim>\<open>networking\<close> ranks below.
\<close>

theorem find_relevant_context_superset_counterexample:
  "map sm_subsystem (relevant_subsystems (find_relevant_context
      [(''networking'', networking), (''devtools'', devtools)] ''developer tools sync'')) =
     [''devtools'', ''networking''] \<and>
   map sm_matched_keywords (relevant_subsystems (find_relevant_context
      [(''networking'', networking), (''devtools'', devtools)] ''developer tools sync'')) =
     [[], [''sync'']] \<and>
   map sm_score (relevant_subsystems (find_relevant_context
      [(''networking'', networking), (''devtools'', devtools)] ''developer tools sync'')) = [2, 1]"
  unfolding relevant_subsystems_eq by code_simp

text \<open>
  Claim C8, amended. The score of a subsystem does not decrease from one text to
  another when every keyword of the subsystem that occurs in the first occurs in the
  second and the name, if it occurs in the first, occurs in the second. In an index
  with distinct keys, a subsystem \<open>A\<close> whose matched keyword set strictly contains that
  of a subsystem \<open>B\<close> is ranked before \<open>B\<close> wherever \<open>B\<close> is returned, provided that
  the keyword list of \<open>B\<close> has no repeated entry and that \<open>B\<close> does not get the name
  bonus unless \<open>A\<close> gets it too.
\<close>

theorem find_relevant_context_monotone:
  "((\<forall>k \<in> set (sub_keywords info). sublist k (lower t1) \<longrightarrow> sublist k (lower t2)) \<and>
    (sublist (lower (sub_name info)) (lower t1) \<longrightarrow> sublist (lower (sub_name info)) (lower t2)) \<longrightarrow>
    sm_score (score_subsystem (lower t1) key info) \<le> sm_score (score_subsystem (lower t2) key info)) \<and>
   (distinct (map fst SUBSYSTEMS) \<and> (ka, A) \<in> set SUBSYSTEMS \<and> (kb, B) \<in> set SUBSYSTEMS \<and>
    distinct (sub_keywords B) \<and>
    set (sm_matched_keywords (score_subsystem (lower t) kb B)) \<subset>
      set (sm_matched_keywords (score_subsystem (lower t) ka A)) \<and>
    (sublist (lower (sub_name B)) (lower t) \<longrightarrow> sublist (lower (sub_name A)) (lower t)) \<longrightarrow>
    (\<forall>j < length (relevant_subsystems (find_relevant_context SUBSYSTEMS t)).
       sm_subsystem (relevant_subsystems (find_relevant_context SUBSYSTEMS t) ! j) = kb \<longrightarrow>
       (\<exists>i<j. sm_subsystem (relevant_subsystems (find_relevant_context SUBSYSTEMS t) ! i) = ka)))"
proof (intro conjI impI allI, goal_cases)
  case 1
  then show ?case by (intro score_subsystem_mono) simp_all
next
  case (2 j)
  then have "sm_score (score_subsystem (lower t) kb B) < sm_score (score_subsystem (lower t) ka A)"
    by (intro score_subsystem_superset) simp_all
  moreover have "relevant_subsystems (find_relevant_context SUBSYSTEMS t) =
      take 5 (sort_matches (score_subsystems (lower t) SUBSYSTEMS []))"
    by (simp add: find_relevant_context_def Let_def)
  ultimately show ?case
    using 2 by (intro ranked_before [where S = SUBSYSTEMS and A = A and B = B and t = "lower t" and n = 5]) simp_all
qed

theorem find_relevant_context_monotone_witness:
  "sm_score (score_subsystem (lower ''fix it'') ''networking'' networking) \<le>
     sm_score (score_subsystem (lower ''fix the sync issue'') ''networking'' networking) \<and>
   sm_subsystem (relevant_subsystems (find_relevant_context
     [(''networking'', networking), (''devtools'', devtools)] ''network sync'') ! 1) = ''devtools'' \<and>
   sm_subsystem (relevant_subsystems (find_relevant_context
     [(''networking'', networking), (''devtools'', devtools)] ''network sync'') ! 0) = ''networking''"
proof -
  let ?idx = "[(''networking'', networking), (''devtools'', devtools)]"
  let ?r = "relevant_subsystems (find_relevant_context ?idx ''network sync'')"
  note mono = find_relevant_context_monotone [where info = networking and ?t1.0 = "''fix it''"
      and ?t2.0 = "''fix the sync issue''" and key = "''networking''" and SUBSYSTEMS = ?idx
      and ka = "''networking''" and A = networking and kb = "''devtools''" and B = devtools
      and t = "''network sync''"]
  have h1: "\<forall>k \<in> set (sub_keywords networking).
      sublist k (lower ''fix it'') \<longrightarrow> sublist k (lower ''fix the sync issue'')"
    by code_simp
  have h2: "sublist (lower (sub_name networking)) (lower ''fix it'') \<longrightarrow>
      sublist (lower (sub_name networking)) (lower ''fix the sync issue'')"
    by code_simp
  have h3: "distinct (map fst ?idx)"
    by simp
  have h4: "(''networking'', networking) \<in> set ?idx"
    by simp
  have h5: "(''devtools'', devtools) \<in> set ?idx"
    by simp
  have h6: "distinct (sub_keywords devtools)"
    by code_simp
  have h7: "set (sm_matched_keywords (score_subsystem (lower ''network sync'') ''devtools'' devtools)) \<subset>
      set (sm_matched_keywords (score_subsystem (lower ''network sync'') ''networking'' networking))"
    by code_simp
  have h8: "sublist (lower (sub_name devtools)) (lower ''network sync'') \<longrightarrow>
      sublist (lower (sub_name networking)) (lower ''network sync'')"
    by code_simp
  have r: "map sm_subsystem ?r = [''networking'', ''devtools'']"
    unfolding relevant_subsystems_eq by code_simp
  have len: "length ?r = 2"
    using arg_cong [OF r, of length] by simp
  have r1: "sm_subsystem (?r ! 1) = ''devtools''"
    using arg_cong [OF r, of "\<lambda>xs. xs ! 1"] len by simp
  have c1: "sm_score (score_subsystem (lower ''fix it'') ''networking'' networking) \<le>
      sm_score (score_subsystem (lower ''fix the sync issue'') ''networking'' networking)"
    by (rule mono [THEN conjunct1, THEN mp]) (intro conjI h1 h2)
  have "\<forall>j < length ?r. sm_subsystem (?r ! j) = ''devtools'' \<longrightarrow>
      (\<exists>i<j. sm_subsystem (?r ! i) = ''networking'')"
    by (rule mono [THEN conjunct2, THEN mp]) (intro conjI h3 h4 h5 h6 h7 h8)
  then have "1 < length ?r \<longrightarrow> sm_subsystem (?r ! 1) = ''devtools'' \<longrightarrow>
      (\<exists>i<1. sm_subsystem (?r ! i) = ''networking'')"
    by (rule spec)
  with len r1 have "\<exists>i<1. sm_subsystem (?r ! i) = ''networking''"
    by simp
  then have c2: "sm_subsystem (?r ! 0) = ''networking''"
    by simp
  from c1 r1 c2 show ?thesis
    by (intro conjI)
qed

subsection \<open>Agent scoring\<close>

lemma runs_Nil: "dropWhile (\<lambda>c. \<not> P c) s = [] \<Longrightarrow> runs P s = []"
  by (subst runs.simps) (simp del: dropWhile_eq_Nil_conv)

lemma runs_Cons:
  "dropWhile (\<lambda>c. \<not> P c) s = c # cs \<Longrightarrow>
   runs P s = takeWhile P (c # cs) # runs P (dropWhile P cs)"
  by (subst runs.simps) simp

lemma in_runs:
  "w \<in> set (runs P s) \<Longrightarrow> w \<noteq> [] \<and> (\<forall>c \<in> set w. P c) \<and> set w \<subseteq> set s"
proof (induction P s rule: runs.induct)
  case (1 P s)
  note IH = "1.IH" and prems = "1.prems"
  show ?case
  proof (cases "dropWhile (\<lambda>c. \<not> P c) s")
    case Nil
    with prems show ?thesis by (simp add: runs_Nil)
  next
    case (Cons c cs)
    have sub: "set (c # cs) \<subseteq> set s"
      using set_dropWhileD [of _ "\<lambda>c. \<not> P c" s] Cons by auto
    have Pc: "P c"
      using hd_dropWhile [of "\<lambda>c. \<not> P c" s] Cons by simp
    from prems Cons consider "w = takeWhile P (c # cs)" | "w \<in> set (runs P (dropWhile P cs))"
      by (auto simp: runs_Cons)
    then show ?thesis
    proof cases
      case 1
      then show ?thesis
        using Pc sub by (auto dest: set_takeWhileD)
    next
      case 2
      with IH [OF Cons] have "w \<noteq> [] \<and> (\<forall>c \<in> set w. P c) \<and> set w \<subseteq> set (dropWhile P cs)"
        by simp
      then show ?thesis
        using sub set_dropWhileD [of _ P cs] by auto
    qed
  qed
qed

text \<open>The tokens of a text, and a word that is part of the text without being one of
  its tokens.\<close>

lemma findall_words_example:
  "findall_words (lower ''Build the UI-menu, a* pub/sub x_1'') =
     [''build'', ''the'', ''ui'', ''menu'', ''a'', ''pub'', ''sub'', ''x_1''] \<and>
   str_in ''ui'' (lower ''build it'') \<and> ''ui'' \<notin> set (findall_words (lower ''build it''))"
  by code_simp

lemma count_triggers_get:
  "(case count_triggers ts m t of None \<Rightarrow> 0 | Some n \<Rightarrow> n) =
     (case m t of None \<Rightarrow> 0 | Some n \<Rightarrow> n) + count_list ts t"
  by (induction ts arbitrary: m) auto

lemma count_triggers_None: "count_triggers ts m t = None \<longleftrightarrow> m t = None \<and> t \<notin> set ts"
  by (induction ts arbitrary: m) auto

lemma count_agents_get:
  "(case count_agents ags m t of None \<Rightarrow> 0 | Some n \<Rightarrow> n) =
     (case m t of None \<Rightarrow> 0 | Some n \<Rightarrow> n) +
     (\<Sum>e \<leftarrow> ags. count_list (agent_triggers (snd e)) t)"
  by (induction ags arbitrary: m) (auto simp: count_triggers_get)

lemma count_agents_None:
  "count_agents ags m t = None \<longleftrightarrow> m t = None \<and> (\<forall>e \<in> set ags. t \<notin> set (agent_triggers (snd e)))"
proof (induction ags arbitrary: m)
  case Nil
  show ?case by simp
next
  case (Cons e ags)
  obtain agent_id info where e: "e = (agent_id, info)"
    by (cases e)
  show ?case
    unfolding e by (simp add: Cons.IH count_triggers_None)
qed

lemma count_list_distinct: "distinct xs \<Longrightarrow> count_list xs x = (if x \<in> set xs then 1 else 0)"
  by (induction xs) auto

lemma sum_count_distinct:
  "\<forall>e \<in> set ags. distinct (agent_triggers (snd e)) \<Longrightarrow>
   (\<Sum>e \<leftarrow> ags. count_list (agent_triggers (snd e)) t) =
     length (filter (\<lambda>e. t \<in> set (agent_triggers (snd e))) ags)"
  by (induction ags) (auto simp: count_list_distinct)

lemma spec_agent_count_length:
  assumes "distinct (map fst ags)"
  shows "spec_agent_count ags t = length (filter (\<lambda>e. t \<in> set (agent_triggers (snd e))) ags)"
proof -
  let ?f = "filter (\<lambda>e. t \<in> set (agent_triggers (snd e))) ags"
  have "distinct (map fst ?f)"
    using assms by (rule distinct_map_filter)
  then have "card (set (map fst ?f)) = length ?f"
    using distinct_card [of "map fst ?f"] by simp
  moreover have "set (map fst ?f) = fst ` {e \<in> set ags. t \<in> set (agent_triggers (snd e))}"
    by auto
  ultimately show ?thesis
    by (simp add: spec_agent_count_def)
qed

lemma rev_bspecD: "x \<in> A \<Longrightarrow> \<forall>y \<in> A. Q y \<Longrightarrow> Q x"
  by blast

lemma trigger_agent_count_spec:
  assumes "distinct (map fst ags)" and "\<forall>e \<in> set ags. distinct (agent_triggers (snd e))"
    and "(agent_id, info) \<in> set ags" and "t \<in> set (agent_triggers info)"
  shows "(case count_agents ags Map.empty t of None \<Rightarrow> 1 | Some n \<Rightarrow> n) = spec_agent_count ags t"
proof -
  have "count_agents ags Map.empty t \<noteq> None"
  proof
    assume "count_agents ags Map.empty t = None"
    then have "\<forall>e \<in> set ags. t \<notin> set (agent_triggers (snd e))"
      by (simp add: count_agents_None)
    with assms(3) have "t \<notin> set (agent_triggers (snd (agent_id, info)))"
      by (rule rev_bspecD)
    with assms(4) show False by simp
  qed
  then obtain n where n: "count_agents ags Map.empty t = Some n"
    by auto
  with count_agents_get [of ags Map.empty t]
  have "n = (\<Sum>e \<leftarrow> ags. count_list (agent_triggers (snd e)) t)"
    by simp
  with n assms(1,2) show ?thesis
    by (simp add: sum_count_distinct spec_agent_count_length)
qed

lemma scan_triggers_sum:
  "scan_triggers cnt tw low ts (s, mt) =
     (s + (\<Sum>t \<leftarrow> filter (\<lambda>t. if length (split t) = 1 then t \<in> set tw else str_in t low) ts.
             of_nat (length (split t)) *
             (1 + 1 / of_nat (case cnt t of None \<Rightarrow> 1 | Some n \<Rightarrow> n))),
      mt @ filter (\<lambda>t. if length (split t) = 1 then t \<in> set tw else str_in t low) ts)"
  by (induction ts arbitrary: s mt) (simp_all add: Let_def)

lemma sum_list_filter_cong:
  fixes f g :: "'a \<Rightarrow> rat"
  assumes "\<forall>x \<in> set xs. (P x \<longrightarrow> f x = (if Q x then g x else 0)) \<and> (Q x \<longrightarrow> P x)"
  shows "(\<Sum>x \<leftarrow> filter P xs. f x) = (\<Sum>x \<leftarrow> filter Q xs. g x)"
  using assms by (induction xs) auto

lemma am_score_score_agent:
  "am_score (score_agent cnt tw low agent_id info) =
     (\<Sum>t \<leftarrow> filter (\<lambda>t. if length (split t) = 1 then t \<in> set tw else str_in t low)
                    (agent_triggers info).
        of_nat (length (split t)) * (1 + 1 / of_nat (case cnt t of None \<Rightarrow> 1 | Some n \<Rightarrow> n))) +
     (if \<exists>word \<in> set tw. 3 < length word \<and> str_in word (lower (agent_description info))
      then 1 / 2 else 0)"
  by (simp add: score_agent_def scan_triggers_sum list_ex_iff)

lemma am_matched_triggers_score_agent:
  "am_matched_triggers (score_agent cnt tw low agent_id info) =
     filter (\<lambda>t. if length (split t) = 1 then t \<in> set tw else str_in t low) (agent_triggers info)"
  by (simp add: score_agent_def scan_triggers_sum)

lemma am_agent_score_agent: "am_agent (score_agent cnt tw low agent_id info) = agent_id"
  by (simp add: score_agent_def split: prod.splits)

lemma score_agents_filter:
  "score_agents cnt tw low ags acc =
     acc @ filter (\<lambda>m. 0 < am_score m) (map (\<lambda>(k, i). score_agent cnt tw low k i) ags)"
  by (induction ags arbitrary: acc) (auto simp: Let_def)

lemma set_ranked_agents:
  "set (ranked_agents ags task) =
     {m \<in> (\<lambda>(k, i). score_agent (count_agents ags Map.empty) (findall_words (lower task))
                       (lower task) k i) ` set ags. 0 < am_score m}"
  by (auto simp: ranked_agents_def Let_def score_agents_filter)

lemma suggested_agents_eq:
  "suggested_agents (suggest_agent ags task) = take 3 (ranked_agents ags task)"
  by (simp add: suggest_agent_def Let_def)

lemma score_agent_spec:
  assumes "distinct (map fst ags)" and "\<forall>e \<in> set ags. distinct (agent_triggers (snd e))"
    and "(agent_id, info) \<in> set ags"
  shows "am_score (score_agent (count_agents ags Map.empty) (findall_words (lower task))
           (lower task) agent_id info) = spec_agent_score ags task info"
proof -
  let ?cnt = "count_agents ags Map.empty"
  have cnt: "(case ?cnt t of None \<Rightarrow> 1 | Some n \<Rightarrow> n) = spec_agent_count ags t"
    if "t \<in> set (agent_triggers info)" for t
    using assms that by (rule trigger_agent_count_spec)
  have "(\<Sum>t \<leftarrow> filter (\<lambda>t. if length (split t) = 1 then t \<in> set (findall_words (lower task))
                               else str_in t (lower task)) (agent_triggers info).
          of_nat (length (split t)) * (1 + 1 / of_nat (case ?cnt t of None \<Rightarrow> 1 | Some n \<Rightarrow> n))) =
        (\<Sum>t \<leftarrow> filter (spec_trigger_matches task) (agent_triggers info).
          of_nat (spec_word_count t) * (1 + 1 / of_nat (spec_agent_count ags t)) :: rat)"
  proof (rule sum_list_filter_cong, intro ballI conjI impI)
    fix t assume t: "t \<in> set (agent_triggers info)"
    assume "if length (split t) = 1 then t \<in> set (findall_words (lower task))
            else str_in t (lower task)"
    then show "of_nat (length (split t)) * (1 + 1 / of_nat (case ?cnt t of None \<Rightarrow> 1 | Some n \<Rightarrow> n)) =
        (if spec_trigger_matches task t
         then of_nat (spec_word_count t) * (1 + 1 / of_nat (spec_agent_count ags t)) else (0::rat))"
      using cnt [OF t] less_Suc_eq [of "length (split t)" 1]
        linorder_less_linear [of "length (split t)" 1]
      by (auto simp: spec_trigger_matches_def spec_word_count_def str_in_sublist split: if_splits)
  next
    fix t assume "spec_trigger_matches task t"
    then show "if length (split t) = 1 then t \<in> set (findall_words (lower task))
            else str_in t (lower task)"
      by (auto simp: spec_trigger_matches_def spec_word_count_def str_in_sublist)
  qed
  then show ?thesis
    by (simp add: am_score_score_agent spec_agent_score_def spec_description_bonus_def str_in_sublist)
qed

text \<open>
  Claim C1. In a registry with distinct agent ids in which no agent lists a trigger
  twice (the registry \<open>AGENTS\<close> of the source is one), the score that the loop of
  \<^verbatim>\<open>suggest_agent\<close> computes for an agent is the sum, over the triggers of the agent that
  match, of the word count of the trigger times \<open>1 + 1 / agentCount\<close>, plus 1/2 if a token
  of more than 3 characters occurs in the lower-cased description. A single-word
  trigger matches if it is one of the tokens of the lower-cased text, a multi-word
  trigger if it is a contiguous part of the lower-cased text; \<open>agentCount\<close> is the number
  of distinct agents that list the trigger. Every returned entry carries that score.
\<close>

theorem suggest_agent_score:
  assumes "distinct (map fst agents)" and "\<forall>e \<in> set agents. distinct (agent_triggers (snd e))"
  shows "(\<forall>(agent_id, info) \<in> set agents.
            am_score (score_agent (count_agents agents Map.empty) (findall_words (lower task))
              (lower task) agent_id info) = spec_agent_score agents task info) \<and>
         (\<forall>m \<in> set (suggested_agents (suggest_agent agents task)).
            \<exists>info. (am_agent m, info) \<in> set agents \<and>
              am_score m = spec_agent_score agents task info)"
proof (intro conjI ballI)
  fix e assume e: "e \<in> set agents"
  obtain agent_id info where "e = (agent_id, info)"
    by (cases e)
  with e score_agent_spec [OF assms, of agent_id info task]
  show "case e of (agent_id, info) \<Rightarrow>
      am_score (score_agent (count_agents agents Map.empty) (findall_words (lower task))
        (lower task) agent_id info) = spec_agent_score agents task info"
    by simp
next
  fix m assume "m \<in> set (suggested_agents (suggest_agent agents task))"
  then have "m \<in> set (ranked_agents agents task)"
    by (auto simp: suggested_agents_eq dest: in_set_takeD)
  then obtain agent_id info where e: "(agent_id, info) \<in> set agents"
    and m: "m = score_agent (count_agents agents Map.empty) (findall_words (lower task))
        (lower task) agent_id info"
    by (auto simp: set_ranked_agents)
  from assms e have "am_score m = spec_agent_score agents task info"
    unfolding m by (rule score_agent_spec)
  with e m show "\<exists>info. (am_agent m, info) \<in> set agents \<and>
      am_score m = spec_agent_score agents task info"
    by (auto simp: am_agent_score_agent)
qed

theorem suggest_agent_score_witness:
  "am_score (score_agent (count_agents AGENTS Map.empty)
      (findall_words (lower ''redesign the ui menu flow'')) (lower ''redesign the ui menu flow'')
      ''ui-and-ux-agent'' ui_and_ux_agent) = 9 / 2 \<and>
   spec_agent_score AGENTS ''redesign the ui menu flow'' ui_and_ux_agent = 9 / 2"
proof -
  have k: "distinct (map fst AGENTS)"
    by code_simp
  have t: "\<forall>e \<in> set AGENTS. distinct (agent_triggers (snd e))"
    by code_simp
  have m: "(''ui-and-ux-agent'', ui_and_ux_agent) \<in> set AGENTS"
    by (simp add: AGENTS_def)
  have v: "am_score (score_agent (count_agents AGENTS Map.empty)
      (findall_words (lower ''redesign the ui menu flow'')) (lower ''redesign the ui menu flow'')
      ''ui-and-ux-agent'' ui_and_ux_agent) = 9 / 2"
    by code_simp
  have "case (''ui-and-ux-agent'', ui_and_ux_agent) of (agent_id, info) \<Rightarrow>
      am_score (score_agent (count_agents AGENTS Map.empty)
        (findall_words (lower ''redesign the ui menu flow'')) (lower ''redesign the ui menu flow'')
        agent_id info) = spec_agent_score AGENTS ''redesign the ui menu flow'' info"
    using m suggest_agent_score [OF k t, of "''redesign the ui menu flow''", THEN conjunct1]
    by (rule rev_bspecD)
  then have "am_score (score_agent (count_agents AGENTS Map.empty)
      (findall_words (lower ''redesign the ui menu flow'')) (lower ''redesign the ui menu flow'')
      ''ui-and-ux-agent'' ui_and_ux_agent) =
      spec_agent_score AGENTS ''redesign the ui menu flow'' ui_and_ux_agent"
    by (simp only: prod.case)
  with v show ?thesis
    by (simp only: simp_thms)
qed

subsection \<open>Descending stable sort\<close>

lemma filter_decomp:
  "filter P zs = A @ x # B @ y # C \<Longrightarrow> \<exists>a b c. zs = a @ x # b @ y # c"
proof (induction zs arbitrary: A)
  case Nil
  then show ?case by simp
next
  case (Cons z zs)
  show ?case
  proof (cases "P z")
    case False
    with Cons.prems have "filter P zs = A @ x # B @ y # C" by simp
    from Cons.IH [OF this] obtain a b c where "zs = a @ x # b @ y # c" by blast
    then have "z # zs = (z # a) @ x # b @ y # c" by simp
    then show ?thesis by blast
  next
    case True
    show ?thesis
    proof (cases A)
      case Nil
      with True Cons.prems have zx: "z = x" and "filter P zs = B @ y # C" by simp_all
      then have "y \<in> set (filter P zs)" by simp
      then have "y \<in> set zs" by simp
      then obtain b c where "zs = b @ y # c" by (auto simp: in_set_conv_decomp)
      with zx have "z # zs = [] @ x # b @ y # c" by simp
      then show ?thesis by blast
    next
      case (Cons a0 A')
      with True Cons.prems have "filter P zs = A' @ x # B @ y # C" by simp
      from Cons.IH [OF this] obtain a b c where "zs = a @ x # b @ y # c" by blast
      then have "z # zs = (z # a) @ x # b @ y # c" by simp
      then show ?thesis by blast
    qed
  qed
qed

lemma sort_desc_sorted:
  fixes f :: "'a \<Rightarrow> 'b::linordered_ab_group_add"
  assumes "sort_key (\<lambda>x. - f x) xs = as @ x # bs @ y # cs"
  shows "f y \<le> f x"
proof -
  have "sorted (map (\<lambda>x. - f x) (as @ x # bs @ y # cs))"
    using sorted_sort_key [of "\<lambda>x. - f x" xs] assms by simp
  then show ?thesis
    by (simp add: sorted_append)
qed

lemma sort_desc_stable:
  fixes f :: "'a \<Rightarrow> 'b::linordered_ab_group_add"
  assumes "sort_key (\<lambda>x. - f x) xs = as @ x # bs @ y # cs" and "f x = f y"
  shows "\<exists>a b c. xs = a @ x # b @ y # c"
proof -
  let ?P = "\<lambda>m. - f m = - f x"
  have "filter ?P xs = filter ?P (sort_key (\<lambda>x. - f x) xs)"
    by (rule sort_key_stable [symmetric])
  also have "\<dots> = filter ?P as @ x # filter ?P bs @ y # filter ?P cs"
    using assms by simp
  finally show ?thesis
    by (rule filter_decomp)
qed

lemma sort_desc_tied:
  fixes f :: "'a \<Rightarrow> 'b::linordered_ab_group_add"
  shows "filter (\<lambda>m. f m = c) (sort_key (\<lambda>x. - f x) xs) = filter (\<lambda>m. f m = c) xs"
  using sort_key_stable [of "\<lambda>x. - f x" "- c" xs] by simp

lemma take_decomp:
  "take n xs = as @ x # bs @ y # cs \<Longrightarrow> xs = as @ x # bs @ y # (cs @ drop n xs)"
  using append_take_drop_id [of n xs] by simp

lemma map_decomp:
  assumes "map g zs = a @ x # b @ y # c"
  shows "\<exists>a' x' b' y' c'. zs = a' @ x' # b' @ y' # c' \<and> g x' = x \<and> g y' = y"
proof -
  from assms obtain a' r where 1: "zs = a' @ r" "map g r = x # b @ y # c"
    by (auto simp: map_eq_append_conv)
  then obtain x' r' where 2: "r = x' # r'" "g x' = x" "map g r' = b @ y # c"
    by (auto simp: map_eq_Cons_conv)
  then obtain b' r'' where 3: "r' = b' @ r''" "map g r'' = y # c"
    by (auto simp: map_eq_append_conv)
  then obtain y' c' where 4: "r'' = y' # c'" "g y' = y"
    by (auto simp: map_eq_Cons_conv)
  from 1 2 3 4 have "zs = a' @ x' # b' @ y' # c'" by simp
  with 2(2) 4(2) show ?thesis by blast
qed

lemma ranked_top:
  fixes f :: "'a \<Rightarrow> 'b::linordered_ab_group_add"
  assumes "\<forall>x \<in> set xs. 0 \<le> f x"
  shows "(case sort_key (\<lambda>x. - f x) (filter (\<lambda>m. 0 < f m) xs) of [] \<Rightarrow> 0 | m # _ \<Rightarrow> f m) =
         Max (insert 0 (f ` set xs))"
proof (cases "sort_key (\<lambda>x. - f x) (filter (\<lambda>m. 0 < f m) xs)")
  case Nil
  then have "set (filter (\<lambda>m. 0 < f m) xs) = {}"
    using set_sort [of "\<lambda>x. - f x" "filter (\<lambda>m. 0 < f m) xs"] by simp
  then have "\<forall>y \<in> set xs. f y = 0"
    using assms by (fastforce simp: filter_empty_conv)
  then have "insert 0 (f ` set xs) = {0}"
    by auto
  then have "Max (insert 0 (f ` set xs)) = 0"
    by (simp only: Max_singleton)
  with Nil show ?thesis by (simp only: list.case)
next
  case (Cons m ms)
  have "set (m # ms) = set (filter (\<lambda>m. 0 < f m) xs)"
    using set_sort [of "\<lambda>x. - f x" "filter (\<lambda>m. 0 < f m) xs"] Cons by simp
  then have m: "m \<in> set xs" "0 < f m" and ms: "\<forall>y \<in> set xs. 0 < f y \<longrightarrow> y \<in> set (m # ms)"
    by auto
  have "sorted (map (\<lambda>x. - f x) (m # ms))"
    using sorted_sort_key [of "\<lambda>x. - f x" "filter (\<lambda>m. 0 < f m) xs"] Cons by simp
  then have le: "\<forall>y \<in> set (m # ms). f y \<le> f m"
    by auto
  have "Max (insert 0 (f ` set xs)) = f m"
  proof (rule Max_eqI)
    show "finite (insert 0 (f ` set xs))" by simp
    show "f m \<in> insert 0 (f ` set xs)" using m(1) by simp
    fix y assume "y \<in> insert 0 (f ` set xs)"
    then consider "y = 0" | z where "z \<in> set xs" "y = f z" by auto
    then show "y \<le> f m"
    proof cases
      case 1
      with m(2) show ?thesis by simp
    next
      case 2
      show ?thesis
      proof (cases "0 < f z")
        case True
        with 2 ms le show ?thesis by blast
      next
        case False
        with 2 m(2) show ?thesis by simp
      qed
    qed
  qed
  with Cons show ?thesis by simp
qed

subsection \<open>Confidence and ties\<close>

lemma am_score_nonneg: "0 \<le> am_score (score_agent cnt tw low agent_id info)"
  by (auto simp: am_score_score_agent intro!: add_nonneg_nonneg sum_list_nonneg)

lemma scored_agents_nonneg: "\<forall>m \<in> set (scored_agents ags task). 0 \<le> am_score m"
  by (auto simp: scored_agents_def am_score_nonneg)

lemma ranked_agents_eq:
  "ranked_agents ags task =
     sort_key (\<lambda>x. - am_score x) (filter (\<lambda>m. 0 < am_score m) (scored_agents ags task))"
  by (simp add: ranked_agents_def Let_def score_agents_filter scored_agents_def)

lemma top_score_eq:
  "(case ranked_agents ags task of [] \<Rightarrow> 0 | m # _ \<Rightarrow> am_score m) = spec_top_score ags task"
  unfolding ranked_agents_eq spec_top_score_def
  using scored_agents_nonneg by (rule ranked_top)

lemma confidence_eq:
  "confidence (suggest_agent ags task) =
     (if 4 \<le> spec_top_score ags task then ''high''
      else if 2 \<le> spec_top_score ags task then ''medium''
      else if 1 \<le> spec_top_score ags task then ''low'' else ''none'')"
  using top_score_eq [of ags task] by (simp add: suggest_agent_def Let_def)

lemma should_invoke_eq:
  "should_invoke (suggest_agent ags task) \<longleftrightarrow>
     confidence (suggest_agent ags task) = ''high'' \<or>
     confidence (suggest_agent ags task) = ''medium''"
  by (simp add: suggest_agent_def Let_def)

lemma no_signal_score:
  assumes "\<forall>t \<in> set (agent_triggers info). \<not> spec_trigger_matches task t"
    and "spec_description_bonus task info = 0"
  shows "am_score (score_agent cnt (findall_words (lower task)) (lower task) agent_id info) = 0"
proof -
  have "(\<Sum>t \<leftarrow> filter (\<lambda>t. if length (split t) = 1 then t \<in> set (findall_words (lower task))
                               else str_in t (lower task)) (agent_triggers info).
          of_nat (length (split t)) * (1 + 1 / of_nat (case cnt t of None \<Rightarrow> 1 | Some n \<Rightarrow> n))) =
        (\<Sum>t \<leftarrow> filter (\<lambda>t. False) (agent_triggers info). (0::rat))"
  proof (rule sum_list_filter_cong, intro ballI conjI impI)
    fix t assume t: "t \<in> set (agent_triggers info)"
    assume m: "if length (split t) = 1 then t \<in> set (findall_words (lower task))
            else str_in t (lower task)"
    from assms(1) t have "\<not> spec_trigger_matches task t" by blast
    with m have "length (split t) = 0"
      using linorder_less_linear [of "length (split t)" 1]
      by (auto simp: spec_trigger_matches_def spec_word_count_def str_in_sublist split: if_splits)
    then show "of_nat (length (split t)) * (1 + 1 / of_nat (case cnt t of None \<Rightarrow> 1 | Some n \<Rightarrow> n)) =
        (if False then 0 else (0::rat))"
      by simp
  qed simp
  moreover have "\<not> (\<exists>word \<in> set (findall_words (lower task)).
      3 < length word \<and> str_in word (lower (agent_description info)))"
    using assms(2) by (auto simp: spec_description_bonus_def str_in_sublist split: if_splits)
  ultimately show ?thesis
    by (simp add: am_score_score_agent)
qed

lemma no_signal_top:
  assumes "\<forall>(agent_id, info) \<in> set ags.
      (\<forall>t \<in> set (agent_triggers info). \<not> spec_trigger_matches task t) \<and>
      spec_description_bonus task info = 0"
  shows "spec_top_score ags task = 0"
proof -
  have "am_score m = 0" if "m \<in> set (scored_agents ags task)" for m
    using that assms by (auto simp: scored_agents_def no_signal_score)
  then have "insert 0 (am_score ` set (scored_agents ags task)) = {0}"
    by auto
  then show ?thesis
    by (simp only: spec_top_score_def Max_singleton)
qed

text \<open>
  Claim C2. The confidence tier is \<^verbatim>\<open>high\<close> if the top score is at least 4, \<^verbatim>\<open>medium\<close> if
  it is at least 2, \<^verbatim>\<open>low\<close> if it is at least 1 and \<^verbatim>\<open>none\<close> otherwise, where the top
  score is the greatest score of an agent of the registry; \<^verbatim>\<open>should_invoke\<close> holds exactly
  for the tiers \<^verbatim>\<open>high\<close> and \<^verbatim>\<open>medium\<close>. A text that matches no trigger of any agent and
  earns no description bonus has tier \<^verbatim>\<open>none\<close> and is not to be invoked.
\<close>

theorem suggest_agent_confidence:
  "confidence (suggest_agent agents task) =
     (if 4 \<le> spec_top_score agents task then ''high''
      else if 2 \<le> spec_top_score agents task then ''medium''
      else if 1 \<le> spec_top_score agents task then ''low'' else ''none'') \<and>
   (should_invoke (suggest_agent agents task) \<longleftrightarrow>
      confidence (suggest_agent agents task) = ''high'' \<or>
      confidence (suggest_agent agents task) = ''medium'') \<and>
   ((\<forall>(agent_id, info) \<in> set agents.
       (\<forall>trigger \<in> set (agent_triggers info). \<not> spec_trigger_matches task trigger) \<and>
       spec_description_bonus task info = 0) \<longrightarrow>
    confidence (suggest_agent agents task) = ''none'' \<and>
    \<not> should_invoke (suggest_agent agents task))"
proof (intro conjI impI)
  assume "\<forall>(agent_id, info) \<in> set agents.
       (\<forall>trigger \<in> set (agent_triggers info). \<not> spec_trigger_matches task trigger) \<and>
       spec_description_bonus task info = 0"
  then have "spec_top_score agents task = 0"
    by (rule no_signal_top)
  then show "confidence (suggest_agent agents task) = ''none''"
    by (simp add: confidence_eq)
  then show "\<not> should_invoke (suggest_agent agents task)"
    by (simp add: should_invoke_eq)
qed (rule confidence_eq should_invoke_eq)+

theorem suggest_agent_confidence_witness:
  "confidence (suggest_agent AGENTS ''zzz'') = ''none'' \<and>
   \<not> should_invoke (suggest_agent AGENTS ''zzz'')"
proof -
  have h: "\<forall>(agent_id, info) \<in> set AGENTS.
       (\<forall>trigger \<in> set (agent_triggers info). \<not> spec_trigger_matches ''zzz'' trigger) \<and>
       spec_description_bonus ''zzz'' info = 0"
    by code_simp
  show ?thesis
    by (rule suggest_agent_confidence [of AGENTS "''zzz''", THEN conjunct2, THEN conjunct2,
          THEN mp, OF h])
qed

lemma ranked_tied:
  fixes f :: "'a \<Rightarrow> 'b::linordered_ab_group_add"
  assumes nonneg: "\<forall>x \<in> set xs. 0 \<le> f x"
  shows "(case sort_key (\<lambda>x. - f x) (filter (\<lambda>m. 0 < f m) xs) of
            m0 # m1 # _ \<Rightarrow>
              if f m0 = f m1
              then Some (filter (\<lambda>m. f m = f m0) (sort_key (\<lambda>x. - f x) (filter (\<lambda>m. 0 < f m) xs)))
              else None
          | _ \<Rightarrow> None) =
         (if 0 < Max (insert 0 (f ` set xs)) \<and>
             2 \<le> length (filter (\<lambda>m. f m = Max (insert 0 (f ` set xs))) xs)
          then Some (filter (\<lambda>m. f m = Max (insert 0 (f ` set xs))) xs) else None)"
proof -
  define R where "R = sort_key (\<lambda>x. - f x) (filter (\<lambda>m. 0 < f m) xs)"
  define top where "top = Max (insert 0 (f ` set xs))"
  have top: "(case R of [] \<Rightarrow> 0 | m # _ \<Rightarrow> f m) = top"
    unfolding R_def top_def using nonneg by (rule ranked_top)
  have pos: "\<forall>m \<in> set R. 0 < f m"
    by (simp add: R_def)
  have tied: "filter (\<lambda>m. f m = c) R = filter (\<lambda>m. f m = c) xs" if "0 < c" for c
  proof -
    have "filter (\<lambda>m. f m = c) R = filter (\<lambda>m. f m = c) (filter (\<lambda>m. 0 < f m) xs)"
      unfolding R_def by (rule sort_desc_tied)
    also have "\<dots> = filter (\<lambda>m. f m = c) xs"
      using that by (auto intro: filter_cong)
    finally show ?thesis .
  qed
  have "(case R of
            m0 # m1 # _ \<Rightarrow> if f m0 = f m1 then Some (filter (\<lambda>m. f m = f m0) R) else None
          | _ \<Rightarrow> None) =
         (if 0 < top \<and> 2 \<le> length (filter (\<lambda>m. f m = top) xs)
          then Some (filter (\<lambda>m. f m = top) xs) else None)"
  proof (cases R)
    case Nil
    with top show ?thesis by simp
  next
    case (Cons m0 ms)
    with top pos have t0: "top = f m0" "0 < top" by auto
    have T: "filter (\<lambda>m. f m = top) xs = filter (\<lambda>m. f m = top) R"
      using tied [OF t0(2)] by simp
    show ?thesis
    proof (cases ms)
      case Nil
      with Cons T t0 show ?thesis by simp
    next
      case ms: (Cons m1 rest)
      show ?thesis
      proof (cases "f m0 = f m1")
        case True
        with Cons ms T t0 show ?thesis by simp
      next
        case False
        have "sorted (map (\<lambda>x. - f x) R)"
          unfolding R_def by (rule sorted_sort_key)
        with Cons ms have "sorted (map (\<lambda>x. - f x) (m0 # m1 # rest))"
          by simp
        then have "\<forall>y \<in> set (m1 # rest). f y \<le> f m1" and "f m1 \<le> f m0"
          by auto
        with False have "\<forall>y \<in> set (m1 # rest). f y \<noteq> top"
          unfolding t0(1) by fastforce
        then have "filter (\<lambda>m. f m = top) (m1 # rest) = []"
          by (simp only: filter_empty_conv)
        with Cons ms have "filter (\<lambda>m. f m = top) R = [m0]"
          using t0(1) by simp
        with Cons ms T False show ?thesis by simp
      qed
    qed
  qed
  then show ?thesis
    unfolding R_def top_def .
qed

lemma disambiguation_eq:
  "disambiguation (suggest_agent ags task) =
     map_option (\<lambda>tied. ''Tied between '' @ join '', '' (map am_agent tied) @
                         ''. Check which files you're modifying to decide.'')
       (case ranked_agents ags task of
          m0 # m1 # _ \<Rightarrow>
            if am_score m0 = am_score m1
            then Some (filter (\<lambda>m. am_score m = am_score m0) (ranked_agents ags task))
            else None
        | _ \<Rightarrow> None)"
  by (simp add: suggest_agent_def Let_def split: list.splits)

text \<open>
  Claim C3. The result carries a disambiguation note exactly when the top score is
  positive and at least two agents of the registry have it, that is, when at least two
  agents end with a nonzero score and the two highest scores are equal. The note names
  the agents whose score is the top score, all of them and no other, in registry order.
\<close>

theorem suggest_agent_disambiguation:
  "disambiguation (suggest_agent agents task) =
     (if 0 < spec_top_score agents task \<and> 2 \<le> length (spec_tied agents task)
      then Some (''Tied between '' @ join '', '' (spec_tied agents task) @
                 ''. Check which files you're modifying to decide.'')
      else None)"
  unfolding disambiguation_eq ranked_agents_eq
  by (simp add: ranked_tied [OF scored_agents_nonneg] spec_tied_def spec_top_score_def)

theorem suggest_agent_disambiguation_witness:
  "disambiguation (suggest_agent
      [(''sprite-2d-artist'', sprite_2d_artist), (''ldtk-validator'', ldtk_validator)] ''ldtk'') =
     Some ''Tied between sprite-2d-artist, ldtk-validator. Check which files you're modifying to decide.'' \<and>
   0 < spec_top_score
      [(''sprite-2d-artist'', sprite_2d_artist), (''ldtk-validator'', ldtk_validator)] ''ldtk'' \<and>
   2 \<le> length (spec_tied
      [(''sprite-2d-artist'', sprite_2d_artist), (''ldtk-validator'', ldtk_validator)] ''ldtk'')"
proof -
  let ?reg = "[(''sprite-2d-artist'', sprite_2d_artist), (''ldtk-validator'', ldtk_validator)]"
  have d: "disambiguation (suggest_agent ?reg ''ldtk'') =
      Some ''Tied between sprite-2d-artist, ldtk-validator. Check which files you're modifying to decide.''"
    by code_simp
  have "0 < spec_top_score ?reg ''ldtk'' \<and> 2 \<le> length (spec_tied ?reg ''ldtk'')"
  proof (rule ccontr)
    assume "\<not> (0 < spec_top_score ?reg ''ldtk'' \<and> 2 \<le> length (spec_tied ?reg ''ldtk''))"
    then have "disambiguation (suggest_agent ?reg ''ldtk'') = None"
      by (simp only: suggest_agent_disambiguation if_False)
    with d show False by simp
  qed
  with d show ?thesis by (simp only: simp_thms)
qed

subsection \<open>Order of the ranked lists\<close>

lemma ranked_sorted_stable:
  fixes f :: "'a \<Rightarrow> 'b::linordered_ab_group_add"
  assumes "take n (sort_key (\<lambda>x. - f x) (filter P (map g zs))) = as @ x # bs @ y # cs"
  shows "f y \<le> f x \<and>
         (f x = f y \<longrightarrow> (\<exists>a' x' b' y' c'. zs = a' @ x' # b' @ y' # c' \<and> g x' = x \<and> g y' = y))"
proof (intro conjI impI)
  let ?r = "sort_key (\<lambda>x. - f x) (filter P (map g zs))"
  from assms have r: "?r = as @ x # bs @ y # (cs @ drop n ?r)"
    by (rule take_decomp)
  then show "f y \<le> f x"
    by (rule sort_desc_sorted)
  assume "f x = f y"
  with r have "\<exists>a b c. filter P (map g zs) = a @ x # b @ y # c"
    by (rule sort_desc_stable)
  then obtain a b c where "filter P (map g zs) = a @ x # b @ y # c"
    by blast
  then have "\<exists>a b c. map g zs = a @ x # b @ y # c"
    by (rule filter_decomp)
  then obtain a b c where "map g zs = a @ x # b @ y # c"
    by blast
  then show "\<exists>a' x' b' y' c'. zs = a' @ x' # b' @ y' # c' \<and> g x' = x \<and> g y' = y"
    by (rule map_decomp)
qed

text \<open>
  Claim C4. In the list of subsystems that \<^verbatim>\<open>find_relevant_context\<close> returns and in the
  list of agents that \<^verbatim>\<open>suggest_agent\<close> returns, an entry that comes later never has a
  greater score than one that comes earlier, and of two entries with equal scores the
  earlier one belongs to the key that comes first in the Subsystem Index, respectively
  in the Agent Registry.
\<close>

theorem ranked_lists_sorted_stable:
  "(\<forall>as x bs y cs.
      relevant_subsystems (find_relevant_context SUBSYSTEMS task) = as @ x # bs @ y # cs \<longrightarrow>
      sm_score y \<le> sm_score x \<and>
      (sm_score x = sm_score y \<longrightarrow>
         (\<exists>as' ix bs' iy cs'.
            SUBSYSTEMS = as' @ (sm_subsystem x, ix) # bs' @ (sm_subsystem y, iy) # cs'))) \<and>
   (\<forall>as x bs y cs.
      suggested_agents (suggest_agent agents task) = as @ x # bs @ y # cs \<longrightarrow>
      am_score y \<le> am_score x \<and>
      (am_score x = am_score y \<longrightarrow>
         (\<exists>as' ix bs' iy cs'.
            agents = as' @ (am_agent x, ix) # bs' @ (am_agent y, iy) # cs')))"
proof (intro conjI allI impI)
  fix as x bs y cs
  assume "relevant_subsystems (find_relevant_context SUBSYSTEMS task) = as @ x # bs @ y # cs"
  then have "take 5 (sort_key (\<lambda>x. - sm_score x) (filter (\<lambda>m. 0 < sm_score m)
      (map (\<lambda>(k, i). score_subsystem (lower task) k i) SUBSYSTEMS))) = as @ x # bs @ y # cs"
    by (simp add: relevant_subsystems_eq sort_matches_def score_subsystems_filter)
  note * = ranked_sorted_stable [OF this]
  from * show "sm_score y \<le> sm_score x" by (rule conjunct1)
  assume "sm_score x = sm_score y"
  with * obtain a' x' b' y' c' where "SUBSYSTEMS = a' @ x' # b' @ y' # c'"
    and "(\<lambda>(k, i). score_subsystem (lower task) k i) x' = x"
    and "(\<lambda>(k, i). score_subsystem (lower task) k i) y' = y"
    by blast
  then have "SUBSYSTEMS = a' @ (sm_subsystem x, snd x') # b' @ (sm_subsystem y, snd y') # c'"
    by (cases x'; cases y') (auto simp: sm_subsystem_score_subsystem)
  then show "\<exists>as' ix bs' iy cs'.
      SUBSYSTEMS = as' @ (sm_subsystem x, ix) # bs' @ (sm_subsystem y, iy) # cs'"
    by blast
next
  fix as x bs y cs
  assume "suggested_agents (suggest_agent agents task) = as @ x # bs @ y # cs"
  then have "take 3 (sort_key (\<lambda>x. - am_score x) (filter (\<lambda>m. 0 < am_score m)
      (map (\<lambda>(agent_id, info). score_agent (count_agents agents Map.empty)
         (findall_words (lower task)) (lower task) agent_id info) agents))) = as @ x # bs @ y # cs"
    by (simp add: suggested_agents_eq ranked_agents_eq scored_agents_def)
  note * = ranked_sorted_stable [OF this]
  from * show "am_score y \<le> am_score x" by (rule conjunct1)
  assume "am_score x = am_score y"
  with * obtain a' x' b' y' c' where "agents = a' @ x' # b' @ y' # c'"
    and "(\<lambda>(agent_id, info). score_agent (count_agents agents Map.empty)
         (findall_words (lower task)) (lower task) agent_id info) x' = x"
    and "(\<lambda>(agent_id, info). score_agent (count_agents agents Map.empty)
         (findall_words (lower task)) (lower task) agent_id info) y' = y"
    by blast
  then have "agents = a' @ (am_agent x, snd x') # b' @ (am_agent y, snd y') # c'"
    by (cases x'; cases y') (auto simp: am_agent_score_agent)
  then show "\<exists>as' ix bs' iy cs'.
      agents = as' @ (am_agent x, ix) # bs' @ (am_agent y, iy) # cs'"
    by blast
qed

theorem ranked_lists_sorted_stable_witness:
  "sm_score (score_subsystem (lower ''network'') ''devtools'' devtools) \<le>
     sm_score (score_subsystem (lower ''network'') ''networking'' networking) \<and>
   am_score (score_agent
       (count_agents [(''sprite-2d-artist'', sprite_2d_artist), (''ldtk-validator'', ldtk_validator)]
          Map.empty)
       (findall_words (lower ''ldtk'')) (lower ''ldtk'') ''ldtk-validator'' ldtk_validator) \<le>
     am_score (score_agent
       (count_agents [(''sprite-2d-artist'', sprite_2d_artist), (''ldtk-validator'', ldtk_validator)]
          Map.empty)
       (findall_words (lower ''ldtk'')) (lower ''ldtk'') ''sprite-2d-artist'' sprite_2d_artist)"
proof -
  let ?idx = "[(''networking'', networking), (''devtools'', devtools)]"
  let ?reg = "[(''sprite-2d-artist'', sprite_2d_artist), (''ldtk-validator'', ldtk_validator)]"
  let ?x = "score_subsystem (lower ''network'') ''networking'' networking"
  let ?y = "score_subsystem (lower ''network'') ''devtools'' devtools"
  let ?a = "score_agent (count_agents ?reg Map.empty) (findall_words (lower ''ldtk''))
      (lower ''ldtk'') ''sprite-2d-artist'' sprite_2d_artist"
  let ?b = "score_agent (count_agents ?reg Map.empty) (findall_words (lower ''ldtk''))
      (lower ''ldtk'') ''ldtk-validator'' ldtk_validator"
  note stable = ranked_lists_sorted_stable [of ?idx "''network''" ?reg]
  note stable' = ranked_lists_sorted_stable [of ?idx "''ldtk''" ?reg]
  have "take 5 (sort_matches (score_subsystems (lower ''network'') ?idx [])) = [?x, ?y]"
    by code_simp
  then have s: "relevant_subsystems (find_relevant_context ?idx ''network'') = [] @ ?x # [] @ ?y # []"
    by (simp only: relevant_subsystems_eq append_Nil)
  have "take 3 (ranked_agents ?reg ''ldtk'') = [?a, ?b]"
    by code_simp
  then have a: "suggested_agents (suggest_agent ?reg ''ldtk'') = [] @ ?a # [] @ ?b # []"
    by (simp only: suggested_agents_eq append_Nil)
  have "sm_score ?y \<le> sm_score ?x"
    using stable [THEN conjunct1, THEN spec, THEN spec, THEN spec, THEN spec, THEN spec,
      THEN mp, OF s]
    by (rule conjunct1)
  moreover have "am_score ?b \<le> am_score ?a"
    using stable' [THEN conjunct2, THEN spec, THEN spec, THEN spec, THEN spec, THEN spec,
      THEN mp, OF a]
    by (rule conjunct1)
  ultimately show ?thesis
    by (rule conjI)
qed

subsection \<open>Document search\<close>

lemma search_documents_map_filter:
  "search_documents q docs results =
     results @ List.map_filter
       (\<lambda>doc. case read_text doc of None \<Rightarrow> None
               | Some content \<Rightarrow> search_document q doc content) docs"
  by (induction docs arbitrary: results)
     (auto simp: List.map_filter_simps split: option.splits)

lemma search_documents_readable:
  "search_documents q docs results =
     search_documents q (filter (\<lambda>doc. read_text doc \<noteq> None) docs) results"
  by (induction docs arbitrary: results) (auto split: option.splits)

text \<open>
  Claim C9. When the context directory exists, \<^verbatim>\<open>search_context_documents\<close> returns a
  result and not an error, whatever files fail to be read. The files that fail are left
  out: the result is the one for the readable files alone, its document matches are the
  entries of the readable files that have a matching line, in the order of the files,
  and every entry belongs to a file that was read.
\<close>

theorem search_context_documents_skips_unreadable:
  "search_context_documents SUBSYSTEMS True doc_files query =
     search_context_documents SUBSYSTEMS True
       (filter (\<lambda>doc. read_text doc \<noteq> None) doc_files) query \<and>
   (\<exists>result. search_context_documents SUBSYSTEMS True doc_files query = Inr result \<and>
      document_matches result =
        List.map_filter
          (\<lambda>doc. case read_text doc of None \<Rightarrow> None
                  | Some content \<Rightarrow> search_document (lower query) doc content) doc_files \<and>
      (\<forall>entry \<in> set (document_matches result).
         \<exists>doc \<in> set doc_files. read_text doc \<noteq> None \<and> document entry = stem doc \<and>
           path entry = relative_path doc))"
proof (intro conjI)
  show "search_context_documents SUBSYSTEMS True doc_files query =
     search_context_documents SUBSYSTEMS True
       (filter (\<lambda>doc. read_text doc \<noteq> None) doc_files) query"
    using search_documents_readable [of "lower query" doc_files "[]"]
    by (simp add: search_context_documents_def Let_def)
  let ?r = "\<lparr>sr_query = query,
      document_matches = search_documents (lower query) doc_files [],
      subsystem_matches = search_subsystems (lower query) SUBSYSTEMS []\<rparr>"
  have 1: "search_context_documents SUBSYSTEMS True doc_files query = Inr ?r"
    by (simp add: search_context_documents_def Let_def)
  have 2: "document_matches ?r =
        List.map_filter
          (\<lambda>doc. case read_text doc of None \<Rightarrow> None
                  | Some content \<Rightarrow> search_document (lower query) doc content) doc_files"
    by (simp add: search_documents_map_filter)
  have 3: "\<forall>entry \<in> set (document_matches ?r).
         \<exists>doc \<in> set doc_files. read_text doc \<noteq> None \<and> document entry = stem doc \<and>
           path entry = relative_path doc"
    unfolding 2
    by (auto simp: List.map_filter_def search_document_def Let_def split: option.splits if_splits)
  from 1 2 3 show "\<exists>result. search_context_documents SUBSYSTEMS True doc_files query = Inr result \<and>
      document_matches result =
        List.map_filter
          (\<lambda>doc. case read_text doc of None \<Rightarrow> None
                  | Some content \<Rightarrow> search_document (lower query) doc content) doc_files \<and>
      (\<forall>entry \<in> set (document_matches result).
         \<exists>doc \<in> set doc_files. read_text doc \<noteq> None \<and> document entry = stem doc \<and>
           path entry = relative_path doc)"
    by blast
qed

theorem search_context_documents_skips_unreadable_witness:
  "search_context_documents [(''networking'', networking)] True
     [\<lparr>stem = ''a'', relative_path = ''.claude/context/a.md'',
        read_text = Some [CHR ''o'', CHR ''n'', CHR ''e'', CHR 0x0A, CHR ''S'', CHR ''y'', CHR ''n'', CHR ''c'']\<rparr>,
      \<lparr>stem = ''b'', relative_path = ''.claude/context/b.md'', read_text = None\<rparr>,
      \<lparr>stem = ''c'', relative_path = ''.claude/context/c.md'', read_text = Some ''sync''\<rparr>]
     ''SYNC'' =
   search_context_documents [(''networking'', networking)] True
     [\<lparr>stem = ''a'', relative_path = ''.claude/context/a.md'',
        read_text = Some [CHR ''o'', CHR ''n'', CHR ''e'', CHR 0x0A, CHR ''S'', CHR ''y'', CHR ''n'', CHR ''c'']\<rparr>,
      \<lparr>stem = ''c'', relative_path = ''.claude/context/c.md'', read_text = Some ''sync''\<rparr>]
     ''SYNC''"
  using search_context_documents_skips_unreadable [of "[(''networking'', networking)]"
      "[\<lparr>stem = ''a'', relative_path = ''.claude/context/a.md'',
          read_text = Some [CHR ''o'', CHR ''n'', CHR ''e'', CHR 0x0A, CHR ''S'', CHR ''y'', CHR ''n'', CHR ''c'']\<rparr>,
        \<lparr>stem = ''b'', relative_path = ''.claude/context/b.md'', read_text = None\<rparr>,
        \<lparr>stem = ''c'', relative_path = ''.claude/context/c.md'', read_text = Some ''sync''\<rparr>]"
      "''SYNC''", THEN conjunct1]
  by simp

lemma search_context_documents_example:
  "map document (document_matches (projr (search_context_documents [(''networking'', networking)] True
     [\<lparr>stem = ''a'', relative_path = ''.claude/context/a.md'',
        read_text = Some [CHR ''o'', CHR ''n'', CHR ''e'', CHR 0x0A, CHR ''S'', CHR ''y'', CHR ''n'', CHR ''c'']\<rparr>,
      \<lparr>stem = ''b'', relative_path = ''.claude/context/b.md'', read_text = None\<rparr>,
      \<lparr>stem = ''c'', relative_path = ''.claude/context/c.md'', read_text = Some ''sync''\<rparr>]
     ''SYNC''))) = [''a'', ''c'']"
  by code_simp

subsection \<open>Triggers that cannot match\<close>

lemma dead_trigger_unmatched:
  assumes "split trigger = [token]" and "\<exists>c \<in> set token. \<not> is_word_char c"
  shows "trigger \<notin> set (findall_words s)"
proof
  assume "trigger \<in> set (findall_words s)"
  then have w: "\<forall>c \<in> set trigger. is_word_char c"
    unfolding findall_words_def by (blast dest: in_runs)
  have "token \<in> set (runs (\<lambda>c. \<not> is_space c) trigger)"
    using assms(1) by (simp add: split_def)
  then have "set token \<subseteq> set trigger"
    by (blast dest: in_runs)
  with w assms(2) show False by blast
qed

lemma dead_trigger_filter:
  assumes "split trigger = [token]" and "\<exists>c \<in> set token. \<not> is_word_char c"
  shows "filter (\<lambda>t. if length (split t) = 1 then t \<in> set (findall_words s) else str_in t low)
           (filter (\<lambda>t. t \<noteq> trigger) ts) =
         filter (\<lambda>t. if length (split t) = 1 then t \<in> set (findall_words s) else str_in t low) ts"
proof -
  have "\<not> (if length (split trigger) = 1 then trigger \<in> set (findall_words s)
            else str_in trigger low)"
    using dead_trigger_unmatched [OF assms, of s] assms(1) by simp
  then show ?thesis
    by (induction ts) auto
qed

lemma dead_trigger_score:
  assumes "split trigger = [token]" and "\<exists>c \<in> set token. \<not> is_word_char c"
  shows "am_score (score_agent cnt (findall_words s) low agent_id info) =
         am_score (score_agent cnt (findall_words s) low agent_id
           (info\<lparr>agent_triggers := filter (\<lambda>t. t \<noteq> trigger) (agent_triggers info)\<rparr>))"
proof -
  define info' where
    "info' = info\<lparr>agent_triggers := filter (\<lambda>t. t \<noteq> trigger) (agent_triggers info)\<rparr>"
  have t: "agent_triggers info' = filter (\<lambda>t. t \<noteq> trigger) (agent_triggers info)"
    and d: "agent_description info' = agent_description info"
    by (simp_all add: info'_def)
  have "am_score (score_agent cnt (findall_words s) low agent_id info) =
      am_score (score_agent cnt (findall_words s) low agent_id info')"
    unfolding am_score_score_agent t d dead_trigger_filter [OF assms] ..
  then show ?thesis
    unfolding info'_def .
qed

text \<open>The triggers of the source's registry that are one token with a character
  outside the class \<^verbatim>\<open>\w\<close>.\<close>

lemma AGENTS_single_token_triggers:
  "filter (\<lambda>trigger. length (split trigger) = 1 \<and> \<not> list_all is_word_char trigger)
     (concat (map (\<lambda>(agent_id, info). agent_triggers info) AGENTS)) =
   [''half-res'', ''power-up'', ''multi-texture'', ''a*'', ''lock-on'', ''anti-cheat'',
    ''data-driven'', ''pub/sub'']"
  by code_simp

text \<open>
  Claim C10. A trigger that \<^verbatim>\<open>split()\<close> leaves as one token with a character outside
  the class \<^verbatim>\<open>\w\<close>, such as \<^verbatim>\<open>a*\<close> or \<^verbatim>\<open>pub/sub\<close>, is never one of the tokens of a
  text, since every token consists of word characters. For every text it is therefore
  in no list of matched triggers, and the score of an agent is the score the agent
  would have without that trigger in its list.
\<close>

theorem single_token_trigger_never_matches:
  "split trigger = [token] \<and> (\<exists>c \<in> set token. \<not> is_word_char c) \<longrightarrow>
     trigger \<notin> set (findall_words (lower task)) \<and>
     (\<forall>m \<in> set (ranked_agents agents task). trigger \<notin> set (am_matched_triggers m)) \<and>
     (\<forall>m \<in> set (suggested_agents (suggest_agent agents task)).
        trigger \<notin> set (am_matched_triggers m)) \<and>
     (\<forall>agent_id info.
        am_score (score_agent (count_agents agents Map.empty) (findall_words (lower task))
          (lower task) agent_id info) =
        am_score (score_agent (count_agents agents Map.empty) (findall_words (lower task))
          (lower task) agent_id
          (info\<lparr>agent_triggers := filter (\<lambda>t. t \<noteq> trigger) (agent_triggers info)\<rparr>)))"
proof (intro impI, elim conjE)
  assume s: "split trigger = [token]" and c: "\<exists>c \<in> set token. \<not> is_word_char c"
  have un: "trigger \<notin> set (findall_words (lower task))"
    using s c by (rule dead_trigger_unmatched)
  have ranked: "trigger \<notin> set (am_matched_triggers m)" if "m \<in> set (ranked_agents agents task)" for m
  proof -
    from that obtain agent_id info where
      "m = score_agent (count_agents agents Map.empty) (findall_words (lower task))
         (lower task) agent_id info"
      by (auto simp: set_ranked_agents)
    with un s show ?thesis
      by (simp add: am_matched_triggers_score_agent)
  qed
  have sugg: "trigger \<notin> set (am_matched_triggers m)"
    if "m \<in> set (suggested_agents (suggest_agent agents task))" for m
    using that ranked by (auto simp: suggested_agents_eq dest: in_set_takeD)
  have score: "am_score (score_agent (count_agents agents Map.empty) (findall_words (lower task))
          (lower task) agent_id info) =
        am_score (score_agent (count_agents agents Map.empty) (findall_words (lower task))
          (lower task) agent_id
          (info\<lparr>agent_triggers := filter (\<lambda>t. t \<noteq> trigger) (agent_triggers info)\<rparr>))"
    for agent_id info
    using s c by (rule dead_trigger_score)
  from un ranked sugg score show "trigger \<notin> set (findall_words (lower task)) \<and>
     (\<forall>m \<in> set (ranked_agents agents task). trigger \<notin> set (am_matched_triggers m)) \<and>
     (\<forall>m \<in> set (suggested_agents (suggest_agent agents task)).
        trigger \<notin> set (am_matched_triggers m)) \<and>
     (\<forall>agent_id info.
        am_score (score_agent (count_agents agents Map.empty) (findall_words (lower task))
          (lower task) agent_id info) =
        am_score (score_agent (count_agents agents Map.empty) (findall_words (lower task))
          (lower task) agent_id
          (info\<lparr>agent_triggers := filter (\<lambda>t. t \<noteq> trigger) (agent_triggers info)\<rparr>)))"
    by blast
qed

theorem single_token_trigger_never_matches_witness:
  "''a*'' \<notin> set (findall_words (lower ''Implement A* pathfinding via pub/sub'')) \<and>
   ''pub/sub'' \<notin> set (findall_words (lower ''Implement A* pathfinding via pub/sub'')) \<and>
   ''a*'' \<in> set (agent_triggers systems_designer) \<and>
   ''pub/sub'' \<in> set (agent_triggers systems_designer)"
proof -
  have a: "split ''a*'' = [''a*''] \<and> (\<exists>c \<in> set ''a*''. \<not> is_word_char c)"
    by code_simp
  have p: "split ''pub/sub'' = [''pub/sub''] \<and> (\<exists>c \<in> set ''pub/sub''. \<not> is_word_char c)"
    by code_simp
  have t: "''a*'' \<in> set (agent_triggers systems_designer)"
    "''pub/sub'' \<in> set (agent_triggers systems_designer)"
    by code_simp+
  from single_token_trigger_never_matches [of "''a*''" "''a*''"
      "''Implement A* pathfinding via pub/sub''" "[(''systems-designer'', systems_designer)]",
      THEN mp, OF a, THEN conjunct1]
    single_token_trigger_never_matches [of "''pub/sub''" "''pub/sub''"
      "''Implement A* pathfinding via pub/sub''" "[(''systems-designer'', systems_designer)]",
      THEN mp, OF p, THEN conjunct1] t
  show ?thesis by (intro conjI)
qed

end
